theory Spec2Isabelle
  imports Main "HOL-Library.Multiset" "HOL-Library.AList"
begin

section \<open>Strings and numbers of the JavaScript runtime\<close>

text \<open>
  A string is a list of 8-bit characters. A character above 127 stands for a non-ASCII
  character; \<open>isAscii\<close> is the check of the \<open>is-ascii\<close> package the query builder
  imports: no character code above 127.
\<close>

definition isAscii :: "string \<Rightarrow> bool" where
  "isAscii str = list_all (\<lambda>c. \<not> (of_char c > (127::nat))) str"

definition digit_char :: "nat \<Rightarrow> char" where
  "digit_char d = (''0123456789'' ! d)"

text \<open>The decimal text of a non-negative integer, as a template literal or a property key
  renders it.\<close>

function string_of_nat :: "nat \<Rightarrow> string" where
  "string_of_nat n =
     (if n < 10 then [digit_char n] else string_of_nat (n div 10) @ [digit_char (n mod 10)])"
  by pat_completeness auto
termination
  by (relation "measure id") auto

declare string_of_nat.simps [simp del]

section \<open>The ranked search query builder (lib/models/Lines.js)\<close>

text \<open>
  The builder accumulates clauses; every method returns the builder with its clause
  appended. \<open>Where column operator value\<close> is \<open>.where( column, operator, value )\<close>;
  \<open>OrderByRaw sql bindings\<close> is \<open>.orderBy( raw( sql, bindings ) )\<close>.
\<close>

datatype clause = Where string string string | OrderByRaw string "string list"

type_synonym query = "clause list"

text \<open>\<open>orderResults( search, field )\<close>: the three patterns, the \<open>WHEN\<close> branches built by
  \<open>reduce\<close> with the index of each pattern, and the \<open>CASE ... END\<close> text.\<close>

definition orderResults :: "query \<Rightarrow> string \<Rightarrow> string \<Rightarrow> query" where
  "orderResults this search field =
    (let variants = [search, search @ ''%'', ''%'' @ search @ ''%''];
         cases = foldl (\<lambda>cases (i, _). cases @ '' WHEN '' @ field @ '' LIKE ? THEN '' @ string_of_nat i)
                   '''' (zip [0..<length variants] variants);
         orderBy = OrderByRaw (''CASE '' @ cases @ '' ELSE '' @ string_of_nat (length variants) @ '' END'')
                     variants
     in this @ [orderBy])"

text \<open>
  \<open>genericSearch( search, field, orderResults = true )\<close>. The third argument is optional:
  \<open>None\<close> is a call that leaves it out (or passes \<open>undefined\<close>), and the default \<open>true\<close>
  applies then. \<open>toAscii\<close> is the transliteration of \<open>gurmukhi-utils\<close>, a parameter.
\<close>

definition asciiSearch :: "(string \<Rightarrow> string) \<Rightarrow> string \<Rightarrow> string" where
  "asciiSearch toAscii search = (if \<not> isAscii search then toAscii search else search)"

definition genericSearch ::
  "(string \<Rightarrow> string) \<Rightarrow> query \<Rightarrow> string \<Rightarrow> string \<Rightarrow> bool option \<Rightarrow> query" where
  "genericSearch toAscii this search field orderResults_arg =
    (let ordered = (case orderResults_arg of None \<Rightarrow> True | Some b \<Rightarrow> b);
         query = this @ [Where field ''LIKE'' (''%'' @ asciiSearch toAscii search @ ''%'')]
     in if ordered then orderResults query (asciiSearch toAscii search) field else query)"

text \<open>\<open>firstLetters( letters, orderResults = true )\<close> has a default of its own and passes
  the resulting flag on; \<open>fullWord( phrase, orderResults )\<close> passes its argument through
  as it is.\<close>

definition firstLetters ::
  "(string \<Rightarrow> string) \<Rightarrow> query \<Rightarrow> string \<Rightarrow> bool option \<Rightarrow> query" where
  "firstLetters toAscii this letters orderResults_arg =
    (let ordered = (case orderResults_arg of None \<Rightarrow> True | Some b \<Rightarrow> b)
     in genericSearch toAscii this letters ''first_letters'' (Some ordered))"

definition fullWord ::
  "(string \<Rightarrow> string) \<Rightarrow> query \<Rightarrow> string \<Rightarrow> bool option \<Rightarrow> query" where
  "fullWord toAscii this phrase orderResults_arg =
     genericSearch toAscii this phrase ''gurmukhi'' orderResults_arg"

text \<open>With three patterns the text that \<open>orderResults\<close> builds is the following; the
  lemma \<open>orderResults_clause\<close> below proves it.\<close>

definition case_sql :: "string \<Rightarrow> string" where
  "case_sql field =
     ''CASE  WHEN '' @ field @ '' LIKE ? THEN 0 WHEN '' @ field @
     '' LIKE ? THEN 1 WHEN '' @ field @ '' LIKE ? THEN 2 ELSE 3 END''"

subsection \<open>What the database engine does with a built query\<close>

text \<open>
  The builder only builds the query; the SQL engine runs it. To state what the rows of a
  search are and in which order they come, the engine is modelled as far as the built
  clauses need it. A row gives each of its columns a text (a column it does not list is
  \<open>NULL\<close>). The comparison operators are a parameter \<open>engine operator pattern text\<close>, so
  \<open>engine ''LIKE''\<close> is the engine's \<open>LIKE\<close>. A \<open>CASE\<close> text is split into its words and read
  as a list of \<open>WHEN column LIKE ? THEN number\<close> branches with an \<open>ELSE number\<close>; its value
  on a row is the number of the first branch whose binding matches, else the \<open>ELSE\<close>
  number. A comparison with \<open>NULL\<close> does not hold.
\<close>

type_synonym row = "(string \<times> string) list"

fun split_spaces :: "string \<Rightarrow> string list" where
  "split_spaces [] = [[]]"
| "split_spaces (c # cs) =
     (if c = CHR '' '' then [] # split_spaces cs
      else (case split_spaces cs of [] \<Rightarrow> [[c]] | t # ts \<Rightarrow> (c # t) # ts))"

definition sql_tokens :: "string \<Rightarrow> string list" where
  "sql_tokens sql = filter (\<lambda>t. t \<noteq> []) (split_spaces sql)"

definition digit_value :: "char \<Rightarrow> nat option" where
  "digit_value c = map_of (zip ''0123456789'' [0..<10]) c"

fun number_of_digits :: "nat \<Rightarrow> string \<Rightarrow> nat option" where
  "number_of_digits acc [] = Some acc"
| "number_of_digits acc (c # cs) =
     (case digit_value c of None \<Rightarrow> None | Some d \<Rightarrow> number_of_digits (10 * acc + d) cs)"

definition number_of_string :: "string \<Rightarrow> nat option" where
  "number_of_string t = (if t = [] then None else number_of_digits 0 t)"

fun parse_whens :: "string list \<Rightarrow> ((string \<times> nat) list \<times> nat) option" where
  "parse_whens (w # col # l # q # t # n # rest) =
     (if w = ''WHEN'' \<and> l = ''LIKE'' \<and> q = ''?'' \<and> t = ''THEN''
      then (case (number_of_string n, parse_whens rest) of
              (Some i, Some (whens, e)) \<Rightarrow> Some ((col, i) # whens, e)
            | _ \<Rightarrow> None)
      else None)"
| "parse_whens [e, n, d] =
     (if e = ''ELSE'' \<and> d = ''END'' then map_option (Pair []) (number_of_string n) else None)"
| "parse_whens _ = None"

definition parse_case :: "string \<Rightarrow> ((string \<times> nat) list \<times> nat) option" where
  "parse_case sql =
     (case sql_tokens sql of
        [] \<Rightarrow> None
      | c # rest \<Rightarrow> if c = ''CASE'' then parse_whens rest else None)"

fun case_value ::
  "(string \<Rightarrow> string \<Rightarrow> bool) \<Rightarrow> (string \<times> nat) list \<Rightarrow> string list \<Rightarrow> nat \<Rightarrow> row \<Rightarrow> nat" where
  "case_value like ((col, i) # whens) (b # bindings) e r =
     (if (case map_of r col of None \<Rightarrow> False | Some v \<Rightarrow> like b v) then i
      else case_value like whens bindings e r)"
| "case_value like _ _ e r = e"

definition where_holds :: "(string \<Rightarrow> string \<Rightarrow> string \<Rightarrow> bool) \<Rightarrow> row \<Rightarrow> clause \<Rightarrow> bool" where
  "where_holds engine r c =
     (case c of
        Where col operator pattern \<Rightarrow>
          (case map_of r col of None \<Rightarrow> False | Some v \<Rightarrow> engine operator pattern v)
      | OrderByRaw sql bindings \<Rightarrow> True)"

definition order_key :: "(string \<Rightarrow> string \<Rightarrow> string \<Rightarrow> bool) \<Rightarrow> clause \<Rightarrow> row \<Rightarrow> nat" where
  "order_key engine c r =
     (case c of
        Where col operator pattern \<Rightarrow> 0
      | OrderByRaw sql bindings \<Rightarrow>
          (case parse_case sql of
             None \<Rightarrow> 0
           | Some (whens, e) \<Rightarrow> case_value (engine ''LIKE'') whens bindings e r))"

text \<open>The rows a query returns: those that satisfy every \<open>WHERE\<close> clause, ordered by the
  \<open>ORDER BY\<close> clauses, the earliest clause being the most significant key (a stable sort
  per clause, from the last clause to the first).\<close>

definition run_query ::
  "(string \<Rightarrow> string \<Rightarrow> string \<Rightarrow> bool) \<Rightarrow> query \<Rightarrow> row list \<Rightarrow> row list" where
  "run_query engine q rows =
     foldr (\<lambda>c rs. sort_key (order_key engine c) rs) q
       (filter (\<lambda>r. list_all (where_holds engine r) q) rows)"

definition is_where :: "clause \<Rightarrow> bool" where
  "is_where c = (case c of Where _ _ _ \<Rightarrow> True | OrderByRaw _ _ \<Rightarrow> False)"

text \<open>The index of the first of the three patterns that a cell matches, for any \<open>LIKE\<close>.\<close>

definition like_class :: "(string \<Rightarrow> string \<Rightarrow> bool) \<Rightarrow> string \<Rightarrow> string option \<Rightarrow> nat" where
  "like_class like t cell =
     (case cell of
        None \<Rightarrow> 3
      | Some v \<Rightarrow> if like t v then 0 else if like (t @ ''%'') v then 1
                  else if like (''%'' @ t @ ''%'') v then 2 else 3)"

text \<open>
  \<open>LIKE\<close> as SQL defines it: in the pattern \<open>%\<close> matches any run of characters, \<open>_\<close> matches
  any one character, and every other character matches a character of the text that the
  engine's collation takes for equal to it (\<open>ceq\<close>, a parameter: exact comparison, or
  comparison that ignores the case of a letter).
\<close>

fun sql_like :: "(char \<Rightarrow> char \<Rightarrow> bool) \<Rightarrow> string \<Rightarrow> string \<Rightarrow> bool" where
  "sql_like ceq [] [] = True"
| "sql_like ceq [] (c # cs) = False"
| "sql_like ceq (p # ps) [] = (p = CHR ''%'' \<and> sql_like ceq ps [])"
| "sql_like ceq (p # ps) (c # cs) =
     (if p = CHR ''%'' then sql_like ceq ps (c # cs) \<or> sql_like ceq (p # ps) cs
      else (p = CHR ''_'' \<or> ceq p c) \<and> sql_like ceq ps cs)"

definition wildcard_free :: "string \<Rightarrow> bool" where
  "wildcard_free t = list_all (\<lambda>c. c \<noteq> CHR ''%'' \<and> c \<noteq> CHR ''_'') t"

text \<open>The three match classes in the words of the specification: the text equals the
  term (0), the text starts with the term (1), the term occurs somewhere in the text (2),
  none of these (3). Characters are compared by \<open>ceq\<close>.\<close>

fun starts_with :: "(char \<Rightarrow> char \<Rightarrow> bool) \<Rightarrow> string \<Rightarrow> string \<Rightarrow> bool" where
  "starts_with ceq [] v = True"
| "starts_with ceq (p # ps) [] = False"
| "starts_with ceq (p # ps) (c # cs) = (ceq p c \<and> starts_with ceq ps cs)"

fun occurs_in :: "(char \<Rightarrow> char \<Rightarrow> bool) \<Rightarrow> string \<Rightarrow> string \<Rightarrow> bool" where
  "occurs_in ceq t [] = starts_with ceq t []"
| "occurs_in ceq t (c # cs) = (starts_with ceq t (c # cs) \<or> occurs_in ceq t cs)"

definition match_class :: "(char \<Rightarrow> char \<Rightarrow> bool) \<Rightarrow> string \<Rightarrow> string option \<Rightarrow> nat" where
  "match_class ceq t cell =
     (case cell of
        None \<Rightarrow> 3
      | Some v \<Rightarrow> if list_all2 ceq t v then 0 else if starts_with ceq t v then 1
                  else if occurs_in ceq t v then 2 else 3)"

section \<open>The JSON build (lib/build-json.js)\<close>

subsection \<open>Values, objects and effects\<close>

text \<open>
  The values the build handles. An object is the list of its own properties in the order
  they were first set; setting a property that is there keeps its place and replaces its
  value (\<open>AList.update\<close>), which is what a spread followed by a key does. A key that is an
  array index comes before the other keys; only the pages of a source have such keys, and
  the section on the pages models their order.
\<close>

datatype json =
    JUndefined
  | JNull
  | JBool bool
  | JNum int
  | JStr string
  | JArr "json list"
  | JObj "(string \<times> json) list"

type_synonym obj = "(string \<times> json) list"

datatype js_error = TypeError | SyntaxError string

text \<open>Reading a property of an object: \<open>undefined\<close> when the object has none of that name.\<close>

definition get :: "obj \<Rightarrow> string \<Rightarrow> json" where
  "get object key = (case map_of object key of None \<Rightarrow> JUndefined | Some v \<Rightarrow> v)"

text \<open>The text of a value inside a template literal.\<close>

definition string_of_int :: "int \<Rightarrow> string" where
  "string_of_int i = (if i < 0 then CHR ''-'' # string_of_nat (nat (- i)) else string_of_nat (nat i))"

fun join_with :: "string \<Rightarrow> string list \<Rightarrow> string" where
  "join_with sep [] = []"
| "join_with sep [x] = x"
| "join_with sep (x # y # ys) = x @ sep @ join_with sep (y # ys)"

fun js_String :: "json \<Rightarrow> string" where
  "js_String JUndefined = ''undefined''"
| "js_String JNull = ''null''"
| "js_String (JBool b) = (if b then ''true'' else ''false'')"
| "js_String (JNum n) = string_of_int n"
| "js_String (JStr s) = s"
| "js_String (JArr xs) =
     join_with '','' (map (\<lambda>x. if x = JUndefined \<or> x = JNull then [] else js_String x) xs)"
| "js_String (JObj kvs) = ''[object Object]''"

text \<open>
  \<open>snakeCaseKeys\<close> is the package \<open>snakecase-keys\<close>: every key of an object is renamed, and
  so are the keys of the objects within it and within its arrays. The renamed properties
  are assigned to a fresh object one after the other, so of two keys with one new name
  the later value stays, at the place of the earlier. The renaming of one key is a
  parameter \<open>sk\<close>; \<open>snake_case\<close> is the renaming of a camel-case name, an underscore and the
  lower-case letter for every upper-case letter. The data of the build has no array
  directly inside an array.
\<close>

definition rename_keys :: "(string \<Rightarrow> string) \<Rightarrow> obj \<Rightarrow> obj" where
  "rename_keys sk kvs = foldl (\<lambda>target (key, val). AList.update (sk key) val target) [] kvs"

fun snakeCaseKeys :: "(string \<Rightarrow> string) \<Rightarrow> json \<Rightarrow> json" where
  "snakeCaseKeys sk (JObj kvs) =
     JObj (rename_keys sk (map (\<lambda>(key, val). (key, snakeCaseKeys sk val)) kvs))"
| "snakeCaseKeys sk (JArr xs) = JArr (map (snakeCaseKeys sk) xs)"
| "snakeCaseKeys sk v = v"

definition upper_to_lower :: "char \<Rightarrow> char option" where
  "upper_to_lower c =
     map_of (zip ''ABCDEFGHIJKLMNOPQRSTUVWXYZ'' ''abcdefghijklmnopqrstuvwxyz'') c"

definition snake_case :: "string \<Rightarrow> string" where
  "snake_case key =
     concat (map (\<lambda>c. case upper_to_lower c of None \<Rightarrow> [c] | Some l \<Rightarrow> [CHR ''_'', l]) key)"

text \<open>The properties left after a destructuring has taken the named ones out.\<close>

definition without :: "string list \<Rightarrow> obj \<Rightarrow> obj" where
  "without keys columns = filter (\<lambda>(key, val). key \<notin> set keys) columns"

text \<open>What a run does to the outside: the lines it prints and the files it hands to
  \<open>saveData\<close>, each in order. A printed line is its text; the colour that \<open>string-colors\<close>
  gives it (\<open>.subheader\<close>, \<open>.success\<close>) is left out.\<close>

record effects =
  console :: "string list"
  saved :: "(string \<times> json) list"

definition TMP_DIR :: string where
  "TMP_DIR = ''./data.tmp''"

definition console_log :: "string \<Rightarrow> effects \<Rightarrow> effects" where
  "console_log msg fx = fx\<lparr>console := console fx @ [msg]\<rparr>"

text \<open>\<open>saveData( filename, data, output = true )\<close>.\<close>

definition saveData :: "string \<Rightarrow> json \<Rightarrow> bool \<Rightarrow> effects \<Rightarrow> effects" where
  "saveData filename data output fx =
     (let path = TMP_DIR @ ''/'' @ filename @ ''.json'';
          fx' = fx\<lparr>saved := saved fx @ [(path, data)]\<rparr>
      in if output then console_log (''Saved '' @ path) fx' else fx')"

subsection \<open>\<open>processBanis\<close>: the ranges of a bani\<close>

text \<open>
  The tables the query reads, with the columns it names: \<open>lines\<close> (\<open>id\<close>, \<open>order_id\<close>),
  \<open>bani_lines\<close> (\<open>line_id\<close>, \<open>bani_id\<close>, \<open>line_group\<close>) and \<open>banis\<close> (\<open>id\<close>, \<open>name_english\<close>
  and the other columns).
\<close>

record lines_row =
  lines_id :: int
  lines_order_id :: int

record bani_lines_row =
  bani_lines_line_id :: int
  bani_lines_bani_id :: int
  bani_lines_line_group :: int

record banis_row =
  banis_id :: int
  name_english :: string
  banis_columns :: obj

record database =
  banis :: "banis_row list"
  bani_lines :: "bani_lines_row list"
  lines :: "lines_row list"

text \<open>A row of \<open>bani_lines_ordered\<close>, the first common table expression: a membership row
  joined with its line. \<open>line_id\<close> is the column the query selects as \<open>id\<close>, the id of the
  line.\<close>

record member =
  order_id :: int
  line_id :: int
  line_group :: int

definition bani_lines_ordered :: "database \<Rightarrow> int \<Rightarrow> member list" where
  "bani_lines_ordered db baniId =
     sort_key order_id
       (concat (map (\<lambda>bl.
          map (\<lambda>l. \<lparr>order_id = lines_order_id l, line_id = lines_id l,
                     line_group = bani_lines_line_group bl\<rparr>)
            (filter (\<lambda>l. lines_id l = bani_lines_line_id bl) (lines db)))
          (filter (\<lambda>bl. bani_lines_bani_id bl = baniId) (bani_lines db))))"

text \<open>\<open>bani_ranges\<close>, the second expression: \<open>min( order_id )\<close> and \<open>max( order_id )\<close> of every
  \<open>line_group\<close>.\<close>

definition group_orders :: "member list \<Rightarrow> int \<Rightarrow> int list" where
  "group_orders ms g = map order_id (filter (\<lambda>r. line_group r = g) ms)"

definition bani_ranges :: "member list \<Rightarrow> (int \<times> int) list" where
  "bani_ranges ms =
     map (\<lambda>g. (Min (set (group_orders ms g)), Max (set (group_orders ms g))))
       (remdups (map line_group ms))"

text \<open>The join of every range with the members \<open>l1\<close> at its \<open>min_order_id\<close> and \<open>l2\<close> at its
  \<open>max_order_id\<close>.\<close>

definition bani_joined :: "member list \<Rightarrow> (member \<times> member) list" where
  "bani_joined ms =
     concat (map (\<lambda>(min_order_id, max_order_id).
        concat (map (\<lambda>l1. map (\<lambda>l2. (l1, l2)) (filter (\<lambda>l2. order_id l2 = max_order_id) ms))
          (filter (\<lambda>l1. order_id l1 = min_order_id) ms)))
       (bani_ranges ms))"

text \<open>
  The outer query: the joined rows grouped by \<open>l1.line_group\<close>, and of every group the
  columns \<open>l1.id\<close> and \<open>l2.id\<close>. These are bare columns of an aggregate query: the engine
  takes them from a row of the group that it chooses, so the choice is a parameter
  \<open>pick\<close>. SQL fixes no order of the groups; the model lists them in some order and no
  property below depends on it.
\<close>

definition bani_query ::
  "((member \<times> member) list \<Rightarrow> member \<times> member) \<Rightarrow> member list \<Rightarrow> (int \<times> int) list" where
  "bani_query pick ms =
     (let joined = bani_joined ms
      in map (\<lambda>g. case pick (filter (\<lambda>(l1, l2). line_group l1 = g) joined) of
                    (l1, l2) \<Rightarrow> (line_id l1, line_id l2))
           (remdups (map (\<lambda>(l1, l2). line_group l1) joined)))"

definition range_json :: "int \<times> int \<Rightarrow> json" where
  "range_json p = JObj [(''start_line'', JNum (fst p)), (''end_line'', JNum (snd p))]"

text \<open>One step of the \<open>reduce\<close> over the banis: the line printed, and the bani with its
  ranges. The steps print when \<open>reduce\<close> calls them, in the order of the banis, and the
  compiled banis are appended in that order.\<close>

definition compile_bani ::
  "((member \<times> member) list \<Rightarrow> member \<times> member) \<Rightarrow> database \<Rightarrow> banis_row \<Rightarrow> string \<times> json" where
  "compile_bani pick db bani =
     (''Compiling bani '' @ name_english bani,
      JObj (AList.update ''lines''
              (JArr (map range_json (bani_query pick (bani_lines_ordered db (banis_id bani)))))
              ((''name_english'', JStr (name_english bani)) # banis_columns bani)))"

definition processBanis ::
  "((member \<times> member) list \<Rightarrow> member \<times> member) \<Rightarrow> database \<Rightarrow> effects \<Rightarrow> effects" where
  "processBanis pick db fx =
     (let fx1 = console_log ''\<newline>Processing banis'' fx;
          compiled = map (compile_bani pick db) (sort_key banis_id (banis db));
          fx2 = foldl (\<lambda>fx msg. console_log msg fx) fx1 (map fst compiled)
      in saveData ''banis'' (JArr (map snd compiled)) True fx2)"

text \<open>The two notions the claims name. A pair is the range of a group when it holds the
  line ids of a member of the group with the least \<open>order_id\<close> and of one with the greatest.
  A group is contiguous when its \<open>order_id\<close>s leave out no number between the least and the
  greatest.\<close>

definition is_range_of :: "member list \<Rightarrow> int \<Rightarrow> int \<times> int \<Rightarrow> bool" where
  "is_range_of ms g p =
     (\<exists>a \<in> set ms. \<exists>b \<in> set ms.
        line_group a = g \<and> line_group b = g \<and> p = (line_id a, line_id b) \<and>
        (\<forall>r \<in> set ms. line_group r = g \<longrightarrow> order_id a \<le> order_id r \<and> order_id r \<le> order_id b))"

definition contiguous :: "member list \<Rightarrow> int \<Rightarrow> bool" where
  "contiguous ms g =
     list_all (\<lambda>i. i \<in> set (group_orders ms g))
       [Min (set (group_orders ms g)) .. Max (set (group_orders ms g))]"

text \<open>The member at an \<open>order_id\<close>, and the two boundary members of a group.\<close>

definition member_at :: "member list \<Rightarrow> int \<Rightarrow> member" where
  "member_at ms ordid = hd (filter (\<lambda>l. order_id l = ordid) ms)"

definition boundary :: "member list \<Rightarrow> int \<Rightarrow> member \<times> member" where
  "boundary ms g =
     (member_at ms (Min (set (group_orders ms g))), member_at ms (Max (set (group_orders ms g))))"

text \<open>Two databases for one bani with one line group. In the first the group holds the
  lines at \<open>order_id\<close> 5, 6 and 9 and leaves out 7 and 8; in the second it holds all five.\<close>

definition five_lines :: "lines_row list" where
  "five_lines =
     [\<lparr>lines_id = 105, lines_order_id = 5\<rparr>, \<lparr>lines_id = 106, lines_order_id = 6\<rparr>,
      \<lparr>lines_id = 107, lines_order_id = 7\<rparr>, \<lparr>lines_id = 108, lines_order_id = 8\<rparr>,
      \<lparr>lines_id = 109, lines_order_id = 9\<rparr>]"

definition bani_with_gap :: database where
  "bani_with_gap =
     \<lparr>banis = [\<lparr>banis_id = 1, name_english = ''Japji Sahib'', banis_columns = []\<rparr>],
      bani_lines = map (\<lambda>i. \<lparr>bani_lines_line_id = i, bani_lines_bani_id = 1, bani_lines_line_group = 1\<rparr>)
                     [105, 106, 109],
      lines = five_lines\<rparr>"

definition bani_without_gap :: database where
  "bani_without_gap =
     \<lparr>banis = [\<lparr>banis_id = 1, name_english = ''Japji Sahib'', banis_columns = []\<rparr>],
      bani_lines = map (\<lambda>i. \<lparr>bani_lines_line_id = i, bani_lines_bani_id = 1, bani_lines_line_group = 1\<rparr>)
                     [105, 106, 107, 108, 109],
      lines = five_lines\<rparr>"

subsection \<open>\<open>processSources\<close>: sources, sections and subsections\<close>

text \<open>
  What the eager query returns: every source with its own columns and its sections, every
  section with its own columns and its subsections, every subsection with its own columns.
  The columns are the properties of the row object, \<open>id\<close> and the foreign keys among them;
  the order of the three lists is the order of retrieval. \<open>row_id\<close> is the number the
  comparison \<open>id1 - id2\<close> of the three sorts reads; the sort is stable.
\<close>

record section_row =
  section_columns :: obj
  subsections :: "obj list"

record source_row =
  source_columns :: obj
  sections :: "section_row list"

definition row_id :: "obj \<Rightarrow> int" where
  "row_id columns = (case map_of columns ''id'' of Some (JNum n) \<Rightarrow> n | _ \<Rightarrow> 0)"

definition flatten_subsection :: "obj \<Rightarrow> json" where
  "flatten_subsection subsection = JObj (without [''id'', ''sectionId''] subsection)"

definition flatten_section :: "section_row \<Rightarrow> json" where
  "flatten_section section =
     JObj (AList.update ''subsections''
             (JArr (map flatten_subsection (sort_key row_id (subsections section))))
             (without [''id'', ''sourceId'', ''subsections''] (section_columns section)))"

definition flatten_source :: "source_row \<Rightarrow> json" where
  "flatten_source source =
     JObj (AList.update ''sections''
             (JArr (map flatten_section
                      (sort_key (\<lambda>s. row_id (section_columns s)) (sections source))))
             (without [''id'', ''sections''] (source_columns source)))"

definition flatten_sources :: "source_row list \<Rightarrow> json list" where
  "flatten_sources sources =
     map flatten_source (sort_key (\<lambda>s. row_id (source_columns s)) sources)"

text \<open>
  \<open>processSources\<close>. The sorted sources are compiled in order, each printing its line. The
  array is then given to \<open>snakeCaseKeys\<close>, which returns it as an object with the indices
  for keys, in the order of the array, and \<open>Object.entries\<close> with \<open>reduce\<close> list its values
  in that order again.
\<close>

definition processSources :: "(string \<Rightarrow> string) \<Rightarrow> source_row list \<Rightarrow> effects \<Rightarrow> effects" where
  "processSources sk sources fx =
     (let fx1 = console_log ''\<newline>Processing sources'' fx;
          sorted_sources = sort_key (\<lambda>s. row_id (source_columns s)) sources;
          fx2 = foldl (\<lambda>fx msg. console_log msg fx) fx1
                  (map (\<lambda>s. ''Compiling source '' @
                          js_String (get (without [''id'', ''sections''] (source_columns s)) ''nameEnglish''))
                     sorted_sources);
          data = map (snakeCaseKeys sk) (map flatten_source sorted_sources)
      in saveData ''sources'' (JArr data) True fx2)"

text \<open>The same data in another order of retrieval: the sources, the sections of every
  source and the subsections of every section are each rearranged.\<close>

definition retrieved ::
  "(source_row list \<Rightarrow> source_row list) \<Rightarrow> (section_row list \<Rightarrow> section_row list) \<Rightarrow>
   (obj list \<Rightarrow> obj list) \<Rightarrow> source_row list \<Rightarrow> source_row list" where
  "retrieved p1 p2 p3 sources =
     p1 (map (\<lambda>s. s\<lparr>sections :=
                  p2 (map (\<lambda>c. c\<lparr>subsections := p3 (subsections c)\<rparr>) (sections s))\<rparr>) sources)"

text \<open>The ids are keys: no two sources, no two sections of a source and no two subsections
  of a section have the same \<open>id\<close>.\<close>

definition unique_ids :: "source_row list \<Rightarrow> bool" where
  "unique_ids sources =
     (distinct (map (\<lambda>s. row_id (source_columns s)) sources) \<and>
      list_all (\<lambda>s. distinct (map (\<lambda>c. row_id (section_columns c)) (sections s)) \<and>
                    list_all (\<lambda>c. distinct (map row_id (subsections c))) (sections s)) sources)"

definition keys_of :: "json \<Rightarrow> string list" where
  "keys_of v = (case v of JObj kvs \<Rightarrow> map fst kvs | _ \<Rightarrow> [])"

definition two_sources :: "source_row list" where
  "two_sources =
     [\<lparr>source_columns = [(''id'', JNum 2), (''nameEnglish'', JStr ''Dasam Granth'')],
       sections = []\<rparr>,
      \<lparr>source_columns = [(''id'', JNum 1), (''nameEnglish'', JStr ''Guru Granth'')],
       sections =
         [\<lparr>section_columns = [(''id'', JNum 7), (''sourceId'', JNum 1), (''nameEnglish'', JStr ''Raag Asa'')],
           subsections = [[(''id'', JNum 31), (''sectionId'', JNum 7), (''nameEnglish'', JStr ''Vaar'')],
                          [(''id'', JNum 30), (''sectionId'', JNum 7), (''nameEnglish'', JStr ''Chhant'')]]\<rparr>,
          \<lparr>section_columns = [(''id'', JNum 3), (''sourceId'', JNum 1), (''nameEnglish'', JStr ''Jap'')],
           subsections = []\<rparr>]\<rparr>]"

subsection \<open>\<open>processLines\<close>: shabads, lines, translations and pages\<close>

text \<open>
  What the eager queries return. A row has its own columns, their names in camel case,
  and its relations. Of a related row only \<open>nameEnglish\<close> is read, so a relation is given
  by that name; a relation that may be missing is \<open>None\<close> when the query returns \<open>null\<close>
  for it. \<open>additionalInformation\<close> is the encoded text of the column of a translation.
\<close>

record content_row =
  content_gurmukhi :: string
  publication :: string

record translation_row =
  translation_columns :: obj
  additionalInformation :: string
  languageName :: string
  translationSourceName :: string

record line_row =
  line_columns :: obj
  line_type :: "string option"
  line_content :: "content_row list"
  line_translations :: "translation_row list"

record shabad_row =
  shabad_columns :: obj
  shabad_writer :: string
  shabad_section :: string
  shabad_subsection :: "string option"
  shabad_lines :: "line_row list"

record lines_source =
  nameEnglish :: string
  shabads :: "shabad_row list"

text \<open>The first failure of a sequence of steps ends it, as the first exception does.\<close>

fun traverse :: "('a \<Rightarrow> js_error + 'b) \<Rightarrow> 'a list \<Rightarrow> js_error + 'b list" where
  "traverse f [] = Inr []"
| "traverse f (x # xs) =
     (case f x of
        Inl e \<Rightarrow> Inl e
      | Inr y \<Rightarrow> (case traverse f xs of Inl e \<Rightarrow> Inl e | Inr ys \<Rightarrow> Inr (y # ys)))"

definition properties :: "json \<Rightarrow> obj" where
  "properties v = (case v of JObj kvs \<Rightarrow> kvs | _ \<Rightarrow> [])"

text \<open>The content of a line by publication: \<open>{ ...content, [ publication.nameEnglish ]:
  gurmukhi }\<close> for every content row in turn.\<close>

definition group_content :: "content_row list \<Rightarrow> obj" where
  "group_content rows =
     foldl (\<lambda>acc row. AList.update (publication row) (JStr (content_gurmukhi row)) acc) [] rows"

text \<open>
  The translations of a line by language and translation source. \<open>parse\<close> is \<open>JSON.parse\<close>,
  a parameter: it returns the decoded value or throws. The translation loses
  \<open>translationSourceId\<close>, \<open>lineId\<close> and \<open>translationSource\<close> to the destructuring, gets the
  decoded \<open>additionalInformation\<close> and goes under its language and its source. The
  \<open>reduce\<close> starts from a promise of an empty object, which spreads to nothing and is
  written as \<open>{}\<close>; it is the empty object here.
\<close>

definition translation_step ::
  "(string \<Rightarrow> js_error + json) \<Rightarrow> (string \<Rightarrow> string) \<Rightarrow> obj \<Rightarrow> translation_row \<Rightarrow> js_error + obj" where
  "translation_step parse sk acc row =
     (case parse (additionalInformation row) of
        Inl e \<Rightarrow> Inl e
      | Inr information \<Rightarrow>
          Inr (AList.update (languageName row)
                 (JObj (AList.update (translationSourceName row)
                          (snakeCaseKeys sk
                             (JObj (AList.update ''additionalInformation'' information
                                      (without [''translationSourceId'', ''lineId'', ''translationSource'']
                                         (translation_columns row)))))
                          (properties (get acc (languageName row)))))
                 acc))"

fun group_translations ::
  "(string \<Rightarrow> js_error + json) \<Rightarrow> (string \<Rightarrow> string) \<Rightarrow> obj \<Rightarrow> translation_row list \<Rightarrow> js_error + obj" where
  "group_translations parse sk acc [] = Inr acc"
| "group_translations parse sk acc (row # rows) =
     (case translation_step parse sk acc row of
        Inl e \<Rightarrow> Inl e
      | Inr acc' \<Rightarrow> group_translations parse sk acc' rows)"

text \<open>A line: its remaining columns with the name of its type, in snake case, then the
  content and the translations.\<close>

definition compile_line ::
  "(string \<Rightarrow> js_error + json) \<Rightarrow> (string \<Rightarrow> string) \<Rightarrow> line_row \<Rightarrow> js_error + json" where
  "compile_line parse sk line =
     (let rest = without [''orderId'', ''firstLetters'', ''vishraamFirstLetters'', ''typeId'',
                          ''shabadId'', ''translations'', ''type'', ''transliterations'',
                          ''gurmukhi'', ''content''] (line_columns line);
          type_name = (case line_type line of None \<Rightarrow> JNull | Some name \<Rightarrow> JStr name);
          head = properties (snakeCaseKeys sk (JObj (AList.update ''type'' type_name rest)));
          with_gurmukhi = AList.update ''gurmukhi'' (JObj (group_content (line_content line))) head
      in case group_translations parse sk [] (line_translations line) of
           Inl e \<Rightarrow> Inl e
         | Inr grouped \<Rightarrow> Inr (JObj (AList.update ''translations'' (JObj grouped) with_gurmukhi)))"

text \<open>A shabad: its columns with the five join keys set to \<open>undefined\<close> and with the names
  of its writer, section and subsection, in snake case, then its lines.
  \<open>( shabad.subsection && shabad.subsection.nameEnglish ) || null\<close> is \<open>null\<close> for a missing
  subsection and for an empty name.\<close>

definition merged_shabad :: "shabad_row \<Rightarrow> obj" where
  "merged_shabad shabad =
       (AList.update ''subsection''
          (case shabad_subsection shabad of
             None \<Rightarrow> JNull
           | Some name \<Rightarrow> if name = [] then JNull else JStr name)
       (AList.update ''section'' (JStr (shabad_section shabad))
       (AList.update ''writer'' (JStr (shabad_writer shabad))
       (AList.update ''subsectionId'' JUndefined
       (AList.update ''orderId'' JUndefined
       (AList.update ''sectionId'' JUndefined
       (AList.update ''sourceId'' JUndefined
       (AList.update ''writerId'' JUndefined (shabad_columns shabad)))))))))"

definition shabad_head :: "(string \<Rightarrow> string) \<Rightarrow> shabad_row \<Rightarrow> obj" where
  "shabad_head sk shabad = properties (snakeCaseKeys sk (JObj (merged_shabad shabad)))"

definition compile_shabad ::
  "(string \<Rightarrow> js_error + json) \<Rightarrow> (string \<Rightarrow> string) \<Rightarrow> shabad_row \<Rightarrow> js_error + json" where
  "compile_shabad parse sk shabad =
     (case traverse (compile_line parse sk) (shabad_lines shabad) of
        Inl e \<Rightarrow> Inl e
      | Inr compiled \<Rightarrow> Inr (JObj (AList.update ''lines'' (JArr compiled) (shabad_head sk shabad))))"

text \<open>The first stage: the compiled shabads of every source under the name of the
  source, one source after the other.\<close>

fun compile_sources ::
  "(string \<Rightarrow> js_error + json) \<Rightarrow> (string \<Rightarrow> string) \<Rightarrow> (string \<times> json list) list \<Rightarrow>
   lines_source list \<Rightarrow> js_error + (string \<times> json list) list" where
  "compile_sources parse sk acc [] = Inr acc"
| "compile_sources parse sk acc (source # sources) =
     (case traverse (compile_shabad parse sk) (shabads source) of
        Inl e \<Rightarrow> Inl e
      | Inr compiled \<Rightarrow>
          compile_sources parse sk (AList.update (nameEnglish source) compiled acc) sources)"

text \<open>
  The second stage groups the shabads of a source by \<open>first.source_page\<close>, where \<open>first\<close> is
  the first element of \<open>lines\<close>: reading a property of the \<open>undefined\<close> first line of a shabad
  without lines throws a \<open>TypeError\<close>.
\<close>

definition first_page :: "json \<Rightarrow> js_error + json" where
  "first_page shabad =
     (case get (properties shabad) ''lines'' of
        JArr (first # rest) \<Rightarrow>
          (case first of
             JUndefined \<Rightarrow> Inl TypeError
           | JNull \<Rightarrow> Inl TypeError
           | _ \<Rightarrow> Inr (get (properties first) ''source_page''))
      | _ \<Rightarrow> Inl TypeError)"

text \<open>
  The keys of an object come in this order: the keys that are array indices (the decimal
  text of a number below \<open>2^32 - 1\<close>) in ascending order of the number, then the other keys
  in the order they were set.
\<close>

definition array_index :: "string \<Rightarrow> nat option" where
  "array_index key =
     (case number_of_string key of
        None \<Rightarrow> None
      | Some n \<Rightarrow> if string_of_nat n = key \<and> n < 4294967295 then Some n else None)"

fun insert_index :: "nat \<Rightarrow> string \<Rightarrow> 'a \<Rightarrow> (string \<times> 'a) list \<Rightarrow> (string \<times> 'a) list" where
  "insert_index n key val [] = [(key, val)]"
| "insert_index n key val ((k, x) # rest) =
     (case array_index k of
        None \<Rightarrow> (key, val) # (k, x) # rest
      | Some m \<Rightarrow> if m < n then (k, x) # insert_index n key val rest
                  else (key, val) # (k, x) # rest)"

definition set_property :: "string \<Rightarrow> 'a \<Rightarrow> (string \<times> 'a) list \<Rightarrow> (string \<times> 'a) list" where
  "set_property key val object =
     (if key \<in> fst ` set object then AList.update key val object
      else case array_index key of
             None \<Rightarrow> object @ [(key, val)]
           | Some n \<Rightarrow> insert_index n key val object)"

text \<open>\<open>groupBy\<close> of lodash: a value joins the group at its key, or starts it.\<close>

fun groupBy :: "(json \<Rightarrow> js_error + json) \<Rightarrow> (string \<times> json list) list \<Rightarrow> json list \<Rightarrow>
    js_error + (string \<times> json list) list" where
  "groupBy iteratee result [] = Inr result"
| "groupBy iteratee result (v # vs) =
     (case iteratee v of
        Inl e \<Rightarrow> Inl e
      | Inr k \<Rightarrow>
          (let key = js_String k
           in groupBy iteratee
                (case map_of result key of
                   Some page \<Rightarrow> AList.update key (page @ [v]) result
                 | None \<Rightarrow> set_property key [v] result)
                vs))"

fun group_sources ::
  "(string \<times> (string \<times> json list) list) list \<Rightarrow> (string \<times> json list) list \<Rightarrow>
   js_error + (string \<times> (string \<times> json list) list) list" where
  "group_sources acc [] = Inr acc"
| "group_sources acc ((sourceName, compiled) # sources) =
     (case groupBy first_page [] compiled of
        Inl e \<Rightarrow> Inl e
      | Inr pages \<Rightarrow> group_sources (AList.update sourceName pages acc) sources)"

text \<open>The third stage writes every page of every source, under the page key padded with
  zeros to the length of the last key of the source.\<close>

definition padStart :: "nat \<Rightarrow> char \<Rightarrow> string \<Rightarrow> string" where
  "padStart targetLength c s = replicate (targetLength - length s) c @ s"

definition page_label :: "(string \<times> json list) list \<Rightarrow> string \<Rightarrow> string" where
  "page_label pages page = padStart (length (fst (last pages))) (CHR ''0'') page"

definition save_source :: "string \<times> (string \<times> json list) list \<Rightarrow> effects \<Rightarrow> effects" where
  "save_source entry fx =
     (case entry of (source, pages) \<Rightarrow>
        foldl (\<lambda>fx (page, compiled).
                 saveData (source @ ''/'' @ page_label pages page) (JArr compiled) False fx)
          (console_log (''Compiling shabads for '' @ source) fx) pages)"

text \<open>
  \<open>processLines\<close>. A failure of the first or the second stage rejects the promise that
  \<open>processLines\<close> returns, and the run ends there; the saves are all in the third stage, so
  nothing of the dataset has been saved then. The directory that \<open>createDir\<close> makes for a
  source is not part of the effects.
\<close>

definition processLines ::
  "(string \<Rightarrow> js_error + json) \<Rightarrow> (string \<Rightarrow> string) \<Rightarrow> lines_source list \<Rightarrow> effects \<Rightarrow>
   js_error + effects" where
  "processLines parse sk sources fx =
     (case compile_sources parse sk [] sources of
        Inl e \<Rightarrow> Inl e
      | Inr compiled \<Rightarrow>
          (case group_sources [] compiled of
             Inl e \<Rightarrow> Inl e
           | Inr grouped \<Rightarrow>
               Inr (foldl (\<lambda>fx entry. save_source entry fx)
                      (console_log ''\<newline>Processing lines'' fx) grouped)))"

text \<open>
  Modelled from the spec: \<open>writeJSON\<close> of \<open>lib/utils\<close> is not among the sources. The
  specification has the sink save the tree as a JSON artifact. JSON has no \<open>undefined\<close>: a
  property whose value is \<open>undefined\<close> is left out of the written object, and an
  \<open>undefined\<close> element of an array is written as \<open>null\<close>.
\<close>

fun to_json :: "json \<Rightarrow> json" where
  "to_json (JObj kvs) =
     JObj (map (\<lambda>(key, val). (key, to_json val)) (filter (\<lambda>(key, val). val \<noteq> JUndefined) kvs))"
| "to_json (JArr xs) = JArr (map (\<lambda>x. if x = JUndefined then JNull else to_json x) xs)"
| "to_json v = v"

text \<open>
  The notions the claims about the grouping name. The leaves of a two-level mapping are
  its entries under a language and then a translation source; \<open>leaf_keys\<close> lists the pair
  of names of every leaf. A mapping is well grouped when no language occurs twice and
  every language holds an object in which no source occurs twice.
\<close>

definition leaf_keys :: "obj \<Rightarrow> (string \<times> string) list" where
  "leaf_keys grouped =
     concat (map (\<lambda>(language, sources). map (\<lambda>(source, leaf). (language, source)) (properties sources))
               grouped)"

definition well_grouped :: "obj \<Rightarrow> bool" where
  "well_grouped acc =
     (distinct (map fst acc) \<and>
      list_all (\<lambda>(language, sources). \<exists>inner. sources = JObj inner \<and> distinct (map fst inner)) acc)"

definition translation_rows :: "lines_source list \<Rightarrow> translation_row list" where
  "translation_rows sources =
     concat (map (\<lambda>source. concat (map (\<lambda>shabad. concat (map line_translations (shabad_lines shabad)))
                                    (shabads source))) sources)"

text \<open>
  A scenario: a source with one shabad of one line with one translation. \<open>parse_scenario\<close>
  stands for \<open>JSON.parse\<close> on the two texts of the scenario of the specification: \<open>{}\<close> is
  the empty object, and \<open>{\<close> is rejected with the message of the runtime.
\<close>

definition parse_scenario :: "string \<Rightarrow> js_error + json" where
  "parse_scenario text =
     (if text = ''{}'' then Inr (JObj [])
      else Inl (SyntaxError ''Unexpected end of JSON input''))"

definition scenario_translation :: "int \<Rightarrow> int \<Rightarrow> string \<Rightarrow> string \<Rightarrow> translation_row" where
  "scenario_translation line source_id source_name information =
     \<lparr>translation_columns = [(''lineId'', JNum line), (''translationSourceId'', JNum source_id),
                             (''translation'', JStr ''True is the Name'')],
      additionalInformation = information,
      languageName = ''English'',
      translationSourceName = source_name\<rparr>"

definition scenario_line :: "int \<Rightarrow> int \<Rightarrow> translation_row list \<Rightarrow> line_row" where
  "scenario_line line page rows =
     \<lparr>line_columns = [(''id'', JNum line), (''shabadId'', JNum 1), (''sourcePage'', JNum page),
                      (''orderId'', JNum line), (''firstLetters'', JStr ''sn'')],
      line_type = None,
      line_content = [\<lparr>content_gurmukhi = ''siq nwmu'', publication = ''SGPC''\<rparr>],
      line_translations = rows\<rparr>"

definition scenario_shabad :: "int \<Rightarrow> line_row list \<Rightarrow> shabad_row" where
  "scenario_shabad shabad rows =
     \<lparr>shabad_columns = [(''id'', JNum shabad), (''writerId'', JNum 1), (''sectionId'', JNum 1),
                        (''subsectionId'', JNull), (''sourceId'', JNum 1), (''orderId'', JNum shabad)],
      shabad_writer = ''Guru Nanak Dev Ji'',
      shabad_section = ''Jap'',
      shabad_subsection = None,
      shabad_lines = rows\<rparr>"

text \<open>A line with two content rows of one publication and a third of another, and with
  three translations, two of them of the same language and source.\<close>

definition scenario_line_duplicates :: line_row where
  "scenario_line_duplicates =
     \<lparr>line_columns = [(''id'', JNum 11), (''sourcePage'', JNum 1), (''orderId'', JNum 11)],
      line_type = Some ''Pankti'',
      line_content = [\<lparr>content_gurmukhi = ''siq nwm'', publication = ''SGPC''\<rparr>,
                      \<lparr>content_gurmukhi = ''siqnwmu'', publication = ''Larivaar''\<rparr>,
                      \<lparr>content_gurmukhi = ''siq nwmu'', publication = ''SGPC''\<rparr>],
      line_translations = [scenario_translation 11 1 ''Dr. Sant Singh Khalsa'' ''{}'',
                           scenario_translation 11 2 ''Bhai Manmohan Singh'' ''{}'',
                           scenario_translation 11 1 ''Dr. Sant Singh Khalsa'' ''{}'']\<rparr>"

text \<open>The eight properties that the compilation of a shabad sets.\<close>

definition head_keys :: "string list" where
  "head_keys = [''writerId'', ''sourceId'', ''sectionId'', ''orderId'', ''subsectionId'', ''writer'',
                ''section'', ''subsection'']"

text \<open>The scenario shabad with one line and one translation as it is compiled, the join
  keys \<open>undefined\<close>.\<close>

definition scenario_compiled :: json where
  "scenario_compiled =
     JObj [(''id'', JNum 1), (''writer_id'', JUndefined), (''section_id'', JUndefined),
           (''subsection_id'', JUndefined), (''source_id'', JUndefined), (''order_id'', JUndefined),
           (''writer'', JStr ''Guru Nanak Dev Ji''), (''section'', JStr ''Jap''),
           (''subsection'', JNull),
           (''lines'',
            JArr [JObj [(''id'', JNum 11), (''source_page'', JNum 1), (''type'', JNull),
                        (''gurmukhi'', JObj [(''SGPC'', JStr ''siq nwmu'')]),
                        (''translations'',
                         JObj [(''English'',
                                JObj [(''Dr. Sant Singh Khalsa'',
                                       JObj [(''translation'', JStr ''True is the Name''),
                                             (''additional_information'', JObj [])])])])]])]"

text \<open>
  The notions the claim about the pages names. A compiled shabad has a page when its first
  line holds a page number, a number from 0 that is an array index; \<open>page_number\<close> is that
  number, and \<open>max_page\<close> the greatest of a list of shabads. \<open>grouped_by_page\<close> is what the
  grouping keeps at every step: the keys are the page numbers of the shabads seen, in
  ascending order, the groups hold the shabads seen, each under the key of its page.
\<close>

definition has_page :: "json \<Rightarrow> bool" where
  "has_page shabad =
     (case first_page shabad of Inr (JNum n) \<Rightarrow> 0 \<le> n \<and> n < 4294967295 | _ \<Rightarrow> False)"

definition page_number :: "json \<Rightarrow> nat" where
  "page_number shabad = (case first_page shabad of Inr (JNum n) \<Rightarrow> nat n | _ \<Rightarrow> 0)"

definition max_page :: "json list \<Rightarrow> nat" where
  "max_page compiled = Max (set (map page_number compiled))"

definition grouped_by_page :: "(string \<times> json list) list \<Rightarrow> json list \<Rightarrow> bool" where
  "grouped_by_page pages seen =
     ((\<exists>ps. map fst pages = map string_of_nat ps \<and> sorted ps \<and> distinct ps \<and>
            set ps = page_number ` set seen \<and> (\<forall>p \<in> set ps. p < 4294967295)) \<and>
      mset (concat (map snd pages)) = mset seen \<and>
      (\<forall>(key, members) \<in> set pages. \<forall>s \<in> set members. key = string_of_nat (page_number s)))"

text \<open>A compiled shabad reduced to what the grouping reads.\<close>

definition paged_shabad :: "int \<Rightarrow> int \<Rightarrow> json" where
  "paged_shabad i page =
     JObj [(''id'', JNum i), (''lines'', JArr [JObj [(''id'', JNum (10 * i)), (''source_page'', JNum page)]])]"

section \<open>Properties of the ranked search query builder\<close>

subsection \<open>The clauses that are built\<close>

lemma orderResults_clause:
  "orderResults this search field =
     this @ [OrderByRaw (case_sql field) [search, search @ ''%'', ''%'' @ search @ ''%'']]"
  by (simp add: orderResults_def case_sql_def Let_def upt_rec string_of_nat.simps digit_char_def)

lemma genericSearch_clauses:
  "genericSearch toAscii this search field flag =
     this @ Where field ''LIKE'' (''%'' @ asciiSearch toAscii search @ ''%'') #
       (if flag = Some False then []
        else [OrderByRaw (case_sql field)
                [asciiSearch toAscii search, asciiSearch toAscii search @ ''%'',
                 ''%'' @ asciiSearch toAscii search @ ''%'']])"
  by (cases flag) (auto simp: genericSearch_def orderResults_clause Let_def)

subsection \<open>Reading the \<open>CASE\<close> text back\<close>

lemma split_spaces_ne [simp]: "split_spaces s \<noteq> []"
  by (induction s) (auto split: list.splits)

lemma split_spaces_word:
  "CHR '' '' \<notin> set w \<Longrightarrow> split_spaces (w @ CHR '' '' # rest) = w # split_spaces rest"
  by (induction w) (auto split: list.splits)

lemma sql_tokens_word:
  "CHR '' '' \<notin> set w \<Longrightarrow> w \<noteq> [] \<Longrightarrow> sql_tokens (w @ CHR '' '' # rest) = w # sql_tokens rest"
  by (simp add: sql_tokens_def split_spaces_word)

lemma sql_tokens_space: "sql_tokens (CHR '' '' # rest) = sql_tokens rest"
  by (simp add: sql_tokens_def)

lemma sql_tokens_keyword:
  "sql_tokens (''WHEN'' @ CHR '' '' # rest) = ''WHEN'' # sql_tokens rest"
  "sql_tokens (''LIKE'' @ CHR '' '' # rest) = ''LIKE'' # sql_tokens rest"
  "sql_tokens (''CASE'' @ CHR '' '' # rest) = ''CASE'' # sql_tokens rest"
  "sql_tokens (''THEN'' @ CHR '' '' # rest) = ''THEN'' # sql_tokens rest"
  "sql_tokens (''ELSE'' @ CHR '' '' # rest) = ''ELSE'' # sql_tokens rest"
  "sql_tokens (''?'' @ CHR '' '' # rest) = ''?'' # sql_tokens rest"
  "sql_tokens (''0'' @ CHR '' '' # rest) = ''0'' # sql_tokens rest"
  "sql_tokens (''1'' @ CHR '' '' # rest) = ''1'' # sql_tokens rest"
  "sql_tokens (''2'' @ CHR '' '' # rest) = ''2'' # sql_tokens rest"
  "sql_tokens (''3'' @ CHR '' '' # rest) = ''3'' # sql_tokens rest"
  "sql_tokens ''END'' = [''END'']"
  by (simp_all add: sql_tokens_def)

lemma sql_tokens_case_sql:
  assumes "field \<noteq> []" "CHR '' '' \<notin> set field"
  shows "sql_tokens (case_sql field) =
     [''CASE'', ''WHEN'', field, ''LIKE'', ''?'', ''THEN'', ''0'',
               ''WHEN'', field, ''LIKE'', ''?'', ''THEN'', ''1'',
               ''WHEN'', field, ''LIKE'', ''?'', ''THEN'', ''2'', ''ELSE'', ''3'', ''END'']"
proof -
  have w: "\<And>rest. sql_tokens (field @ CHR '' '' # rest) = field # sql_tokens rest"
    using assms by (simp add: sql_tokens_word)
  show ?thesis
    unfolding case_sql_def
    using sql_tokens_keyword w sql_tokens_space
    by simp
qed

lemma parse_case_sql:
  assumes "field \<noteq> []" "CHR '' '' \<notin> set field"
  shows "parse_case (case_sql field) = Some ([(field, 0), (field, 1), (field, 2)], 3)"
  by (simp add: parse_case_def sql_tokens_case_sql [OF assms] number_of_string_def digit_value_def upt_rec)

lemma order_key_where: "order_key engine (Where col operator pattern) = (\<lambda>_. 0)"
  by (simp add: order_key_def fun_eq_iff)

lemma order_key_case:
  assumes "field \<noteq> []" "CHR '' '' \<notin> set field"
  shows "order_key engine (OrderByRaw (case_sql field) [t, t @ ''%'', CHR ''%'' # t @ ''%'']) =
         (\<lambda>r. like_class (engine ''LIKE'') t (map_of r field))"
  by (simp add: fun_eq_iff order_key_def parse_case_sql [OF assms] like_class_def split: option.splits)

subsection \<open>Running the built query\<close>

lemma sort_key_const: "sort_key (\<lambda>_. (0::nat)) xs = xs"
  by (induction xs) (auto simp: insort_key.simps split: list.splits, (case_tac xs; simp)+)

lemma foldr_sort_mset: "mset (foldr (\<lambda>c rs. sort_key (k c) rs) q rows) = mset rows"
  by (induction q) auto

lemma foldr_sort_where:
  "list_all is_where q \<Longrightarrow> foldr (\<lambda>c rs. sort_key (order_key engine c) rs) q rows = rows"
proof (induction q)
  case Nil
  then show ?case by simp
next
  case (Cons c q)
  then have "order_key engine c = (\<lambda>_. 0)"
    by (auto simp: is_where_def order_key_def split: clause.splits)
  with Cons show ?case by (simp add: sort_key_const)
qed

lemma ranked_sorted:
  assumes f: "field \<noteq> []" "CHR '' '' \<notin> set field" and q: "list_all is_where q"
  shows "sorted (map (\<lambda>r. like_class (engine ''LIKE'') (asciiSearch toAscii search) (map_of r field))
           (run_query engine (genericSearch toAscii q search field (Some True)) rows))"
proof -
  have "run_query engine (genericSearch toAscii q search field (Some True)) rows =
        sort_key (\<lambda>r. like_class (engine ''LIKE'') (asciiSearch toAscii search) (map_of r field))
          (filter (\<lambda>r. list_all (where_holds engine r)
                          (genericSearch toAscii q search field (Some True))) rows)"
    by (simp add: genericSearch_clauses run_query_def foldr_sort_where [OF q] sort_key_const
        order_key_case [OF f] order_key_where)
  then show ?thesis by simp
qed

lemma search_rows:
  "mset (run_query engine (genericSearch toAscii q search field flag) rows) =
   mset (filter (\<lambda>r. list_all (where_holds engine r) q \<and>
                      (case map_of r field of
                         None \<Rightarrow> False
                       | Some v \<Rightarrow> engine ''LIKE'' (''%'' @ asciiSearch toAscii search @ ''%'') v)) rows)"
  by (simp add: genericSearch_clauses run_query_def foldr_sort_mset where_holds_def
      cong: option.case_cong)

subsection \<open>\<open>LIKE\<close> with a term that has no wildcard\<close>

lemma like_exact: "wildcard_free t \<Longrightarrow> sql_like ceq t v = list_all2 ceq t v"
  by (induction ceq t v rule: sql_like.induct) (auto simp: wildcard_free_def)

lemma like_percent: "sql_like ceq ''%'' v"
  by (induction v) auto

lemma like_prefix: "wildcard_free t \<Longrightarrow> sql_like ceq (t @ ''%'') v = starts_with ceq t v"
proof (induction ceq t v rule: starts_with.induct)
  case (1 ceq v)
  show ?case by (simp add: like_percent)
next
  case (2 ceq p ps)
  then show ?case by (simp add: wildcard_free_def)
next
  case (3 ceq p ps c cs)
  then show ?case by (simp add: wildcard_free_def)
qed

lemma like_contains:
  "wildcard_free t \<Longrightarrow> sql_like ceq (''%'' @ t @ ''%'') v = occurs_in ceq t v"
proof (induction v)
  case Nil
  then show ?case using like_prefix [of t ceq "[]"] by simp
next
  case (Cons c cs)
  then show ?case using like_prefix [of t ceq "c # cs"] by simp
qed

lemma like_class_match_class:
  "wildcard_free t \<Longrightarrow> like_class (sql_like ceq) t cell = match_class ceq t cell"
  unfolding like_class_def match_class_def
  by (simp only: like_exact like_prefix like_contains split: option.splits)

subsection \<open>The claims about the search\<close>

text \<open>
  Claim C9. A search entry point called without the ranking flag builds the ranked query:
  \<open>fullWord( term )\<close> builds what \<open>fullWord( term, true )\<close> builds, since \<open>fullWord\<close> passes
  the missing flag on and the default \<open>true\<close> of \<open>genericSearch\<close> applies, and
  \<open>firstLetters( term )\<close> builds what \<open>firstLetters( term, true )\<close> builds by its own
  default. Both are the filter followed by the ordering of \<open>orderResults\<close>, and not the
  unranked query.
\<close>

theorem fullWord_default_ranked:
  "fullWord toAscii this term None = fullWord toAscii this term (Some True) \<and>
   firstLetters toAscii this term None = firstLetters toAscii this term (Some True) \<and>
   fullWord toAscii this term None =
     orderResults (this @ [Where ''gurmukhi'' ''LIKE'' (''%'' @ asciiSearch toAscii term @ ''%'')])
       (asciiSearch toAscii term) ''gurmukhi'' \<and>
   firstLetters toAscii this term None =
     orderResults (this @ [Where ''first_letters'' ''LIKE'' (''%'' @ asciiSearch toAscii term @ ''%'')])
       (asciiSearch toAscii term) ''first_letters'' \<and>
   fullWord toAscii this term None \<noteq> fullWord toAscii this term (Some False) \<and>
   firstLetters toAscii this term None \<noteq> firstLetters toAscii this term (Some False)"
  by (simp add: fullWord_def firstLetters_def genericSearch_def orderResults_def Let_def)

text \<open>
  Claim C8. The search string is normalised first: a string with a character outside ASCII
  is replaced by its transliteration \<open>toAscii\<close>, a string within ASCII is used as it is.
  The filter pattern and the three ranking patterns are built from the normalised string
  alone, so the built query is the one that the normalised string builds with no
  transliteration at all.
\<close>

theorem genericSearch_normalized:
  "asciiSearch toAscii search = (if isAscii search then search else toAscii search) \<and>
   genericSearch toAscii this search field flag =
     this @ Where field ''LIKE'' (''%'' @ asciiSearch toAscii search @ ''%'') #
       (if flag = Some False then []
        else [OrderByRaw (case_sql field)
                [asciiSearch toAscii search, asciiSearch toAscii search @ ''%'',
                 ''%'' @ asciiSearch toAscii search @ ''%'']]) \<and>
   genericSearch toAscii this search field flag =
     genericSearch (\<lambda>s. s) this (asciiSearch toAscii search) field flag"
proof -
  have "asciiSearch (\<lambda>s. s) (asciiSearch toAscii search) = asciiSearch toAscii search"
    by (simp add: asciiSearch_def)
  then show ?thesis
    by (simp add: genericSearch_clauses) (simp add: asciiSearch_def)
qed

text \<open>
  Claim C1, as the specification states it, with "exact equality" and "contains" read
  literally, fails for a term that holds a wildcard of \<open>LIKE\<close>: the builder passes the
  term to \<open>LIKE\<close> as it is. For the term \<open>a_\<close> the text \<open>ab\<close> neither equals nor contains
  the term (class 3 of the claim), and \<open>a_x\<close> starts with it (class 1); the query returns
  \<open>ab\<close>, and before \<open>a_x\<close>.
\<close>

theorem ranked_search_wildcard_counterexample:
  "run_query (\<lambda>operator. sql_like (=))
     (genericSearch (\<lambda>s. s) [] ''a_'' ''first_letters'' None)
     [[(''first_letters'', ''a_x'')], [(''first_letters'', ''ab'')]] =
     [[(''first_letters'', ''ab'')], [(''first_letters'', ''a_x'')]] \<and>
   match_class (=) ''a_'' (Some ''ab'') = 3 \<and>
   match_class (=) ''a_'' (Some ''a_x'') = 1"
  by code_simp

text \<open>
  Claim C1, amended. For every search term and column (a column name is not empty and has
  no space), with \<open>t\<close> the normalised term:
  \<^item> the rows of the search are the rows that pass the earlier filters of the builder and
    whose column matches \<open>LIKE %t%\<close>, ranked or not: ranking never narrows the result set;
  \<^item> when ranking is on and the builder holds no earlier ordering, the rows come in
    ascending order of the index of the first pattern they match: \<open>LIKE t\<close> (0),
    \<open>LIKE t%\<close> (1), \<open>LIKE %t%\<close> (2), none (3);
  \<^item> when \<open>t\<close> has no wildcard (\<open>%\<close> or \<open>_\<close>), these classes are the claim's: equality with
    the term, the term as a prefix, the term at any position, none; and the filter is a
    contains filter.
\<close>

theorem ranked_search:
  assumes "field \<noteq> []" and "CHR '' '' \<notin> set field"
  shows
    "mset (run_query engine (genericSearch toAscii q search field flag) rows) =
     mset (filter (\<lambda>r. list_all (where_holds engine r) q \<and>
                        (case map_of r field of
                           None \<Rightarrow> False
                         | Some v \<Rightarrow> engine ''LIKE'' (''%'' @ asciiSearch toAscii search @ ''%'') v))
             rows) \<and>
     (list_all is_where q \<longrightarrow>
        sorted (map (\<lambda>r. like_class (engine ''LIKE'') (asciiSearch toAscii search) (map_of r field))
                  (run_query engine (genericSearch toAscii q search field (Some True)) rows))) \<and>
     (wildcard_free (asciiSearch toAscii search) \<longrightarrow>
        like_class (sql_like ceq) (asciiSearch toAscii search) cell =
          match_class ceq (asciiSearch toAscii search) cell \<and>
        sql_like ceq (''%'' @ asciiSearch toAscii search @ ''%'') v =
          occurs_in ceq (asciiSearch toAscii search) v)"
proof (intro conjI impI)
  show "mset (run_query engine (genericSearch toAscii q search field flag) rows) =
     mset (filter (\<lambda>r. list_all (where_holds engine r) q \<and>
                        (case map_of r field of
                           None \<Rightarrow> False
                         | Some v \<Rightarrow> engine ''LIKE'' (''%'' @ asciiSearch toAscii search @ ''%'') v))
             rows)"
    by (rule search_rows)
next
  assume "list_all is_where q"
  with assms show "sorted (map (\<lambda>r. like_class (engine ''LIKE'') (asciiSearch toAscii search) (map_of r field))
                  (run_query engine (genericSearch toAscii q search field (Some True)) rows))"
    by (rule ranked_sorted)
next
  assume "wildcard_free (asciiSearch toAscii search)"
  then show "like_class (sql_like ceq) (asciiSearch toAscii search) cell =
          match_class ceq (asciiSearch toAscii search) cell"
    by (rule like_class_match_class)
next
  assume "wildcard_free (asciiSearch toAscii search)"
  then show "sql_like ceq (''%'' @ asciiSearch toAscii search @ ''%'') v =
          occurs_in ceq (asciiSearch toAscii search) v"
    by (rule like_contains)
qed

text \<open>The amended claim at the rows of the specification's scenario, in the ASCII
  encoding: an exact match, a prefix match, a contains-only match and a row without the
  term, stored in another order.\<close>

theorem ranked_search_witness:
  "run_query (\<lambda>operator. sql_like (=))
     (genericSearch (\<lambda>s. s) [] ''siq'' ''gurmukhi'' (Some True))
     [[(''gurmukhi'', ''hir siq nwmu'')], [(''gurmukhi'', ''nwmu'')],
      [(''gurmukhi'', ''siqguru'')], [(''gurmukhi'', ''siq'')]] =
     [[(''gurmukhi'', ''siq'')], [(''gurmukhi'', ''siqguru'')], [(''gurmukhi'', ''hir siq nwmu'')]] \<and>
   sorted (map (\<lambda>r. like_class (sql_like (=)) ''siq'' (map_of r ''gurmukhi''))
     (run_query (\<lambda>operator. sql_like (=))
        (genericSearch (\<lambda>s. s) [] ''siq'' ''gurmukhi'' (Some True))
        [[(''gurmukhi'', ''hir siq nwmu'')], [(''gurmukhi'', ''nwmu'')],
         [(''gurmukhi'', ''siqguru'')], [(''gurmukhi'', ''siq'')]])) \<and>
   like_class (sql_like (=)) ''siq'' (Some ''siqguru'') = match_class (=) ''siq'' (Some ''siqguru'')"
proof -
  have field: "''gurmukhi'' \<noteq> []" "CHR '' '' \<notin> set ''gurmukhi''"
    by simp_all
  have t: "asciiSearch (\<lambda>s. s) ''siq'' = ''siq''"
    by (simp add: asciiSearch_def)
  have q: "list_all is_where []" and w: "wildcard_free ''siq''"
    by (simp_all add: wildcard_free_def)
  have rows: "run_query (\<lambda>operator. sql_like (=))
     (genericSearch (\<lambda>s. s) [] ''siq'' ''gurmukhi'' (Some True))
     [[(''gurmukhi'', ''hir siq nwmu'')], [(''gurmukhi'', ''nwmu'')],
      [(''gurmukhi'', ''siqguru'')], [(''gurmukhi'', ''siq'')]] =
     [[(''gurmukhi'', ''siq'')], [(''gurmukhi'', ''siqguru'')], [(''gurmukhi'', ''hir siq nwmu'')]]"
    by code_simp
  from ranked_search [OF field, of "\<lambda>operator. sql_like (=)" "\<lambda>s. s" "[]" "''siq''" "Some True"
      "[[(''gurmukhi'', ''hir siq nwmu'')], [(''gurmukhi'', ''nwmu'')],
        [(''gurmukhi'', ''siqguru'')], [(''gurmukhi'', ''siq'')]]" "(=)" "Some ''siqguru''" "''siq''"]
  show ?thesis
    unfolding t using q w rows by simp
qed

section \<open>Properties of the range compiler\<close>

lemma filter_key_unique:
  "distinct (map f xs) \<Longrightarrow> x \<in> set xs \<Longrightarrow> filter (\<lambda>y. f y = f x) xs = [x]"
proof (induction xs)
  case Nil then show ?case by simp
next
  case (Cons y ys)
  show ?case
  proof (cases "y = x")
    case True
    with Cons.prems have "filter (\<lambda>z. f z = f x) ys = []"
      by (auto simp: filter_empty_conv image_iff) 
    with True show ?thesis by simp
  next
    case False
    with Cons show ?thesis by (auto simp: image_iff)
  qed
qed

lemma group_orders_ne: "g \<in> set (map line_group ms) \<Longrightarrow> group_orders ms g \<noteq> []"
  by (auto simp: group_orders_def filter_empty_conv)

lemma min_member:
  assumes "g \<in> set (map line_group ms)"
  obtains a where "a \<in> set ms" "line_group a = g" "order_id a = Min (set (group_orders ms g))"
proof -
  have "Min (set (group_orders ms g)) \<in> set (group_orders ms g)"
    using group_orders_ne [OF assms] by (intro Min_in) auto
  then show ?thesis using that by (auto simp: group_orders_def)
qed

lemma max_member:
  assumes "g \<in> set (map line_group ms)"
  obtains b where "b \<in> set ms" "line_group b = g" "order_id b = Max (set (group_orders ms g))"
proof -
  have "Max (set (group_orders ms g)) \<in> set (group_orders ms g)"
    using group_orders_ne [OF assms] by (intro Max_in) auto
  then show ?thesis using that by (auto simp: group_orders_def)
qed

lemma member_at_unique:
  "distinct (map order_id ms) \<Longrightarrow> a \<in> set ms \<Longrightarrow>
   filter (\<lambda>l. order_id l = order_id a) ms = [a] \<and> member_at ms (order_id a) = a"
  using filter_key_unique [of order_id ms a] by (simp add: member_at_def)

lemma boundary_props:
  assumes d: "distinct (map order_id ms)" and g: "g \<in> set (map line_group ms)"
  shows "fst (boundary ms g) \<in> set ms" "snd (boundary ms g) \<in> set ms"
    "line_group (fst (boundary ms g)) = g" "line_group (snd (boundary ms g)) = g"
    "order_id (fst (boundary ms g)) = Min (set (group_orders ms g))"
    "order_id (snd (boundary ms g)) = Max (set (group_orders ms g))"
proof -
  obtain a where a: "a \<in> set ms" "line_group a = g" "order_id a = Min (set (group_orders ms g))"
    using min_member [OF g] by blast
  obtain b where b: "b \<in> set ms" "line_group b = g" "order_id b = Max (set (group_orders ms g))"
    using max_member [OF g] by blast
  have "fst (boundary ms g) = a" "snd (boundary ms g) = b"
    using member_at_unique [OF d a(1)] member_at_unique [OF d b(1)] a(3) b(3)
    by (simp_all add: boundary_def)
  with a b show "fst (boundary ms g) \<in> set ms" "snd (boundary ms g) \<in> set ms"
    "line_group (fst (boundary ms g)) = g" "line_group (snd (boundary ms g)) = g"
    "order_id (fst (boundary ms g)) = Min (set (group_orders ms g))"
    "order_id (snd (boundary ms g)) = Max (set (group_orders ms g))" by simp_all
qed

lemma bani_joined_eq:
  assumes d: "distinct (map order_id ms)"
  shows "bani_joined ms = map (boundary ms) (remdups (map line_group ms))"
proof -
  define pairs where "pairs = (\<lambda>g. concat (map (\<lambda>l1. map (\<lambda>l2. (l1, l2))
                      (filter (\<lambda>l2. order_id l2 = Max (set (group_orders ms g))) ms))
          (filter (\<lambda>l1. order_id l1 = Min (set (group_orders ms g))) ms)))"
  have one: "pairs g = [boundary ms g]" if "g \<in> set (remdups (map line_group ms))" for g
  proof -
    from that have g: "g \<in> set (map line_group ms)" by simp
    note bp = boundary_props [OF d g]
    have 1: "filter (\<lambda>l1. order_id l1 = Min (set (group_orders ms g))) ms = [fst (boundary ms g)]"
      using member_at_unique [OF d bp(1)] bp(5) by simp
    have 2: "filter (\<lambda>l1. order_id l1 = Max (set (group_orders ms g))) ms = [snd (boundary ms g)]"
      using member_at_unique [OF d bp(2)] bp(6) by simp
    show ?thesis by (simp add: pairs_def 1 2)
  qed
  have "bani_joined ms = concat (map pairs (remdups (map line_group ms)))"
    by (simp add: bani_joined_def bani_ranges_def comp_def pairs_def)
  also have "map pairs (remdups (map line_group ms)) =
             map (\<lambda>g. [boundary ms g]) (remdups (map line_group ms))"
    using one by (intro map_cong) auto
  also have "concat (map (\<lambda>g. [boundary ms g]) (remdups (map line_group ms))) =
             map (boundary ms) (remdups (map line_group ms))"
    by (induction "remdups (map line_group ms)") auto
  finally show ?thesis .
qed

lemma bani_query_eq:
  assumes d: "distinct (map order_id ms)" and pick: "\<forall>xs. xs \<noteq> [] \<longrightarrow> pick xs \<in> set xs"
  shows "bani_query pick ms =
         map (\<lambda>g. (line_id (fst (boundary ms g)), line_id (snd (boundary ms g)))) (remdups (map line_group ms))"
proof -
  let ?gs = "remdups (map line_group ms)"
  have lg: "line_group (fst (boundary ms g)) = g" if "g \<in> set ?gs" for g
    using boundary_props(3) [OF d, of g] that by simp
  have groups: "map (\<lambda>(l1, l2). line_group l1) (map (boundary ms) ?gs) = ?gs"
  proof -
    have "map (\<lambda>g. line_group (fst (boundary ms g))) ?gs = map (\<lambda>g. g) ?gs"
      using lg by (intro map_cong) auto
    then show ?thesis by (simp add: comp_def case_prod_unfold)
  qed
  have sel: "filter (\<lambda>p. line_group (fst p) = g) (map (boundary ms) ?gs) = [boundary ms g]"
    if "g \<in> set ?gs" for g
  proof -
    have "filter (\<lambda>p. line_group (fst p) = g) (map (boundary ms) ?gs) =
          map (boundary ms) (filter (\<lambda>h. h = g) ?gs)"
      unfolding filter_map comp_def using lg by (intro arg_cong [where f = "map (boundary ms)"] filter_cong) auto
    also have "filter (\<lambda>h. h = g) ?gs = [g]"
      using filter_key_unique [of "\<lambda>x. x" ?gs g] that by simp
    finally show ?thesis by simp
  qed
  have picked: "pick [x] = x" for x
    using pick [rule_format, of "[x]"] by simp
  show ?thesis
    unfolding bani_query_def Let_def bani_joined_eq [OF d] groups remdups_remdups
    by (intro map_cong refl) (simp add: sel picked case_prod_unfold)
qed

lemma boundary_is_range:
  assumes d: "distinct (map order_id ms)" and g: "g \<in> set (map line_group ms)"
  shows "is_range_of ms g (line_id (fst (boundary ms g)), line_id (snd (boundary ms g)))"
proof -
  note bp = boundary_props [OF d g]
  have "order_id (fst (boundary ms g)) \<le> order_id r \<and> order_id r \<le> order_id (snd (boundary ms g))"
    if "r \<in> set ms" "line_group r = g" for r
  proof -
    from that have "order_id r \<in> set (group_orders ms g)" by (auto simp: group_orders_def)
    then show ?thesis unfolding bp(5) bp(6) by simp
  qed
  with bp(1-4) show ?thesis unfolding is_range_of_def by blast
qed

lemma console_foldl:
  "console (foldl (\<lambda>fx msg. console_log msg fx) fx msgs) = console fx @ msgs"
  by (induction msgs arbitrary: fx) (simp_all add: console_log_def)

lemma console_log_simps:
  "console (console_log msg fx) = console fx @ [msg]"
  "saved (console_log msg fx) = saved fx"
  by (simp_all add: console_log_def)

lemma saveData_console:
  "console (saveData filename data True fx) = console fx @ [''Saved '' @ TMP_DIR @ ''/'' @ filename @ ''.json'']"
  by (simp add: saveData_def Let_def console_log_def)

lemma processBanis_console:
  "console (processBanis pick db fx) =
     console fx @ ''\<newline>Processing banis'' #
       map (\<lambda>b. ''Compiling bani '' @ name_english b) (sort_key banis_id (banis db)) @
       [''Saved ./data.tmp/banis.json'']"
  by (simp add: processBanis_def Let_def saveData_console console_foldl console_log_simps
      TMP_DIR_def compile_bani_def comp_def)

lemma strict_sorted_distinct: "sorted_wrt (<) (map order_id ms) \<Longrightarrow> distinct (map order_id ms)"
  using strict_sorted_iff [of "map order_id ms"] by simp

text \<open>
  Claim C2. For a membership sequence in strictly ascending \<open>order_id\<close> (every \<open>order_id\<close>
  once, as the lines of a bani have it), whichever row the engine picks for the bare
  columns: the query returns one pair for every distinct \<open>line_group\<close>, the line ids of
  the group's members with the least and the greatest \<open>order_id\<close>. An empty membership
  gives the empty list.
\<close>

theorem range_compiler:
  assumes "sorted_wrt (<) (map order_id ms)"
    and "\<forall>xs. xs \<noteq> [] \<longrightarrow> pick xs \<in> set xs"
  shows "(\<exists>gs. distinct gs \<and> set gs = set (map line_group ms) \<and>
               list_all2 (is_range_of ms) gs (bani_query pick ms)) \<and>
         bani_query pick [] = []"
proof -
  let ?gs = "remdups (map line_group ms)"
  have d: "distinct (map order_id ms)"
    using assms(1) by (rule strict_sorted_distinct)
  have "list_all2 (is_range_of ms) ?gs (bani_query pick ms)"
    unfolding bani_query_eq [OF d assms(2)]
    by (simp add: list_all2_map2 list_all2_same boundary_is_range [OF d])
  then have "\<exists>gs. distinct gs \<and> set gs = set (map line_group ms) \<and>
               list_all2 (is_range_of ms) gs (bani_query pick ms)"
    by (intro exI [of _ ?gs]) simp
  moreover have "bani_query pick [] = []"
    by (simp add: bani_query_def bani_joined_def bani_ranges_def)
  ultimately show ?thesis by simp
qed

text \<open>Claim C2 at the scenario of the specification: \<open>order_id\<close>s 5, 6, 7, 12, 13 in the
  groups 1, 1, 1, 2, 2 compile to the ranges from line 105 to 107 and from 112 to 113.\<close>

theorem range_compiler_witness:
  "bani_query hd
     [\<lparr>order_id = 5, line_id = 105, line_group = 1\<rparr>, \<lparr>order_id = 6, line_id = 106, line_group = 1\<rparr>,
      \<lparr>order_id = 7, line_id = 107, line_group = 1\<rparr>, \<lparr>order_id = 12, line_id = 112, line_group = 2\<rparr>,
      \<lparr>order_id = 13, line_id = 113, line_group = 2\<rparr>] = [(105, 107), (112, 113)] \<and>
   (\<exists>gs. distinct gs \<and> set gs = {1, 2} \<and>
      list_all2 (is_range_of
          [\<lparr>order_id = 5, line_id = 105, line_group = 1\<rparr>, \<lparr>order_id = 6, line_id = 106, line_group = 1\<rparr>,
           \<lparr>order_id = 7, line_id = 107, line_group = 1\<rparr>, \<lparr>order_id = 12, line_id = 112, line_group = 2\<rparr>,
           \<lparr>order_id = 13, line_id = 113, line_group = 2\<rparr>])
        gs [(105, 107), (112, 113)])"
proof -
  let ?ms = "[\<lparr>order_id = 5, line_id = 105, line_group = 1\<rparr>, \<lparr>order_id = 6, line_id = 106, line_group = 1\<rparr>,
      \<lparr>order_id = 7, line_id = 107, line_group = 1\<rparr>, \<lparr>order_id = 12, line_id = 112, line_group = 2\<rparr>,
      \<lparr>order_id = 13, line_id = 113, line_group = 2\<rparr>]"
  have s: "sorted_wrt (<) (map order_id ?ms)"
    by simp
  have p: "\<forall>xs::(member \<times> member) list. xs \<noteq> [] \<longrightarrow> hd xs \<in> set xs"
    by simp
  have v: "bani_query hd ?ms = [(105, 107), (112, 113)]"
    by code_simp
  have g: "set (map line_group ?ms) = {1, 2}"
    by auto
  from range_compiler [OF s p] show ?thesis
    unfolding v g by simp
qed

text \<open>
  Claim C7, as stated, fails: the range compiler records nothing about a gap. The whole
  outcome of \<open>processBanis\<close>, what it prints and what it saves, is the same for the bani
  whose group leaves out the lines at 7 and 8 as for the bani whose group holds them; it
  prints its heading, the progress line of the bani and the save message, and no warning.
\<close>

theorem gap_warning_counterexample:
  "\<not> contiguous (bani_lines_ordered bani_with_gap 1) 1 \<and>
   contiguous (bani_lines_ordered bani_without_gap 1) 1 \<and>
   processBanis hd bani_with_gap \<lparr>console = [], saved = []\<rparr> =
     processBanis hd bani_without_gap \<lparr>console = [], saved = []\<rparr> \<and>
   processBanis hd bani_with_gap \<lparr>console = [], saved = []\<rparr> =
     \<lparr>console = [''\<newline>Processing banis'', ''Compiling bani Japji Sahib'',
                 ''Saved ./data.tmp/banis.json''],
      saved = [(''./data.tmp/banis.json'',
                JArr [JObj [(''name_english'', JStr ''Japji Sahib''),
                            (''lines'', JArr [JObj [(''start_line'', JNum 105),
                                                    (''end_line'', JNum 109)]])]])]\<rparr>"
  by code_simp

text \<open>
  Claim C7, amended. When the membership of a line group is not contiguous, nothing
  records it: compiling a bani prints its progress line and nothing else, and
  \<open>processBanis\<close> prints the heading, one progress line for every bani and the save
  message, whatever the memberships are. The compilation does not abort: the ranges of the
  bani are there, and the group with the gap has its range from the least to the greatest
  \<open>order_id\<close> among them.
\<close>

theorem gap_not_recorded:
  assumes "sorted_wrt (<) (map order_id (bani_lines_ordered db (banis_id bani)))"
    and "\<forall>xs. xs \<noteq> [] \<longrightarrow> pick xs \<in> set xs"
    and "g \<in> set (map line_group (bani_lines_ordered db (banis_id bani)))"
    and "\<not> contiguous (bani_lines_ordered db (banis_id bani)) g"
  shows "fst (compile_bani pick db bani) = ''Compiling bani '' @ name_english bani \<and>
         console (processBanis pick db fx) =
           console fx @ ''\<newline>Processing banis'' #
             map (\<lambda>b. ''Compiling bani '' @ name_english b) (sort_key banis_id (banis db)) @
             [''Saved ./data.tmp/banis.json''] \<and>
         snd (compile_bani pick db bani) =
           JObj (AList.update ''lines''
                   (JArr (map range_json (bani_query pick (bani_lines_ordered db (banis_id bani)))))
                   ((''name_english'', JStr (name_english bani)) # banis_columns bani)) \<and>
         (\<exists>p \<in> set (bani_query pick (bani_lines_ordered db (banis_id bani))).
            is_range_of (bani_lines_ordered db (banis_id bani)) g p)"
proof -
  let ?ms = "bani_lines_ordered db (banis_id bani)"
  have d: "distinct (map order_id ?ms)"
    using assms(1) by (rule strict_sorted_distinct)
  have "g \<in> set (remdups (map line_group ?ms))"
    using assms(3) by simp
  then have "(line_id (fst (boundary ?ms g)), line_id (snd (boundary ?ms g))) \<in> set (bani_query pick ?ms)"
    unfolding bani_query_eq [OF d assms(2)] by force
  with boundary_is_range [OF d assms(3)]
  have "\<exists>p \<in> set (bani_query pick ?ms). is_range_of ?ms g p"
    by blast
  then show ?thesis
    by (simp add: processBanis_console) (simp add: compile_bani_def)
qed

theorem gap_not_recorded_witness:
  "fst (compile_bani hd bani_with_gap \<lparr>banis_id = 1, name_english = ''Japji Sahib'', banis_columns = []\<rparr>) =
     ''Compiling bani Japji Sahib'' \<and>
   bani_query hd (bani_lines_ordered bani_with_gap 1) = [(105, 109)] \<and>
   is_range_of (bani_lines_ordered bani_with_gap 1) 1 (105, 109)"
proof -
  let ?b = "\<lparr>banis_id = 1, name_english = ''Japji Sahib'', banis_columns = []\<rparr>"
  have ms: "bani_lines_ordered bani_with_gap 1 =
      [\<lparr>order_id = 5, line_id = 105, line_group = 1\<rparr>, \<lparr>order_id = 6, line_id = 106, line_group = 1\<rparr>,
       \<lparr>order_id = 9, line_id = 109, line_group = 1\<rparr>]"
    by code_simp
  have s: "sorted_wrt (<) (map order_id (bani_lines_ordered bani_with_gap (banis_id ?b)))"
    by (simp add: ms)
  have p: "\<forall>xs::(member \<times> member) list. xs \<noteq> [] \<longrightarrow> hd xs \<in> set xs"
    by simp
  have g: "1 \<in> set (map line_group (bani_lines_ordered bani_with_gap (banis_id ?b)))"
    by (simp add: ms)
  have c: "\<not> contiguous (bani_lines_ordered bani_with_gap (banis_id ?b)) 1"
    by code_simp
  have v: "bani_query hd (bani_lines_ordered bani_with_gap 1) = [(105, 109)]"
    by code_simp
  from gap_not_recorded [OF s p g c, of "\<lparr>console = [], saved = []\<rparr>"] show ?thesis
    by (simp add: v)
qed

section \<open>Properties of the relation flattener\<close>

lemma sort_key_perm:
  assumes "mset xs = mset ys" and "distinct (map f xs)"
  shows "sort_key f xs = sort_key f ys"
proof (rule sort_key_inj_key_eq)
  show "mset xs = mset (sort_key f ys)" using assms(1) by simp
  show "inj_on f (set xs)" using assms(2) by (simp add: distinct_map)
  show "sorted (map f (sort_key f ys))" by simp
qed

lemma sort_key_map_key:
  "sort_key f (map g xs) = map g (sort_key (\<lambda>x. f (g x)) xs)"
proof (induction xs)
  case Nil then show ?case by simp
next
  case (Cons x xs)
  have ins: "insort_key f (g x) (map g ys) = map g (insort_key (\<lambda>x. f (g x)) x ys)" for ys
    by (induction ys) simp_all
  show ?case by (simp add: Cons ins)
qed

lemma flatten_section_perm:
  assumes "mset (p3 (subsections c)) = mset (subsections c)" "distinct (map row_id (subsections c))"
  shows "flatten_section (c\<lparr>subsections := p3 (subsections c)\<rparr>) = flatten_section c"
  using sort_key_perm [OF assms(1) [symmetric] assms(2)]
  by (simp add: flatten_section_def)

lemma flatten_source_perm:
  assumes p2: "\<forall>xs. mset (p2 xs) = mset xs" and p3: "\<forall>xs. mset (p3 xs) = mset xs"
    and d: "distinct (map (\<lambda>c. row_id (section_columns c)) (sections s))"
    and d3: "list_all (\<lambda>c. distinct (map row_id (subsections c))) (sections s)"
  shows "flatten_source (s\<lparr>sections :=
                  p2 (map (\<lambda>c. c\<lparr>subsections := p3 (subsections c)\<rparr>) (sections s))\<rparr>) = flatten_source s"
proof -
  let ?g = "\<lambda>c. c\<lparr>subsections := p3 (subsections c)\<rparr>"
  let ?k = "\<lambda>c. row_id (section_columns c)"
  have "sort_key ?k (p2 (map ?g (sections s))) = sort_key ?k (map ?g (sections s))"
    using p2 d by (intro sort_key_perm [symmetric]) (simp_all add: comp_def)
  also have "\<dots> = map ?g (sort_key ?k (sections s))"
    by (simp add: sort_key_map_key)
  finally have "map flatten_section (sort_key ?k (p2 (map ?g (sections s)))) =
        map (\<lambda>c. flatten_section (?g c)) (sort_key ?k (sections s))"
    by (simp add: comp_def)
  also have "\<dots> = map flatten_section (sort_key ?k (sections s))"
    using d3 p3 by (intro map_cong refl flatten_section_perm) (auto simp: list_all_iff)
  finally show ?thesis by (simp add: flatten_source_def)
qed

lemma flatten_sources_perm:
  assumes p1: "\<forall>xs. mset (p1 xs) = mset xs" and p2: "\<forall>xs. mset (p2 xs) = mset xs"
    and p3: "\<forall>xs. mset (p3 xs) = mset xs" and u: "unique_ids sources"
  shows "flatten_sources (retrieved p1 p2 p3 sources) = flatten_sources sources"
proof -
  let ?g = "\<lambda>s. s\<lparr>sections := p2 (map (\<lambda>c. c\<lparr>subsections := p3 (subsections c)\<rparr>) (sections s))\<rparr>"
  let ?k = "\<lambda>s. row_id (source_columns s)"
  have "sort_key ?k (p1 (map ?g sources)) = sort_key ?k (map ?g sources)"
    using p1 u by (intro sort_key_perm [symmetric]) (simp_all add: comp_def unique_ids_def)
  also have "\<dots> = map ?g (sort_key ?k sources)"
    by (simp add: sort_key_map_key)
  finally have "flatten_sources (retrieved p1 p2 p3 sources) =
        map (\<lambda>s. flatten_source (?g s)) (sort_key ?k sources)"
    by (simp add: flatten_sources_def retrieved_def comp_def)
  also have "\<dots> = map flatten_source (sort_key ?k sources)"
    using u by (intro map_cong refl flatten_source_perm [OF p2 p3]) (auto simp: unique_ids_def list_all_iff)
  finally show ?thesis by (simp add: flatten_sources_def)
qed


lemma processSources_perm:
  assumes p1: "\<forall>xs. mset (p1 xs) = mset xs" and p2: "\<forall>xs. mset (p2 xs) = mset xs"
    and p3: "\<forall>xs. mset (p3 xs) = mset xs" and u: "unique_ids sources"
  shows "processSources sk (retrieved p1 p2 p3 sources) fx = processSources sk sources fx"
proof -
  let ?g = "\<lambda>s. s\<lparr>sections := p2 (map (\<lambda>c. c\<lparr>subsections := p3 (subsections c)\<rparr>) (sections s))\<rparr>"
  let ?k = "\<lambda>s. row_id (source_columns s)"
  have "sort_key ?k (p1 (map ?g sources)) = sort_key ?k (map ?g sources)"
    using p1 u by (intro sort_key_perm [symmetric]) (simp_all add: comp_def unique_ids_def)
  also have "\<dots> = map ?g (sort_key ?k sources)"
    by (simp add: sort_key_map_key)
  finally have s: "sort_key ?k (retrieved p1 p2 p3 sources) = map ?g (sort_key ?k sources)"
    by (simp add: retrieved_def)
  have f: "map flatten_source (map ?g (sort_key ?k sources)) = map flatten_source (sort_key ?k sources)"
    using flatten_sources_perm [OF p1 p2 p3 u] s by (simp add: flatten_sources_def)
  show ?thesis
    unfolding processSources_def Let_def s f by (simp add: comp_def)
qed

lemma without_keys: "key \<in> set keys \<Longrightarrow> key \<notin> fst ` set (without keys columns)"
  by (auto simp: without_def)

lemma update_keys_subset:
  "key \<noteq> k \<Longrightarrow> key \<notin> fst ` set columns \<Longrightarrow> key \<notin> fst ` set (AList.update k v columns)"
  by (simp add: dom_update)

text \<open>
  Claim C6. Where the ids are keys, the outcome of \<open>processSources\<close> does not depend on
  the order in which the sources, the sections of a source and the subsections of a
  section are retrieved: any rearrangement of the three levels prints and saves the same.
  The emitted lists follow the ids in ascending order, and no emitted object keeps the
  \<open>id\<close> or the foreign key of its row.
\<close>

theorem relation_flattener_deterministic:
  assumes "\<forall>xs. mset (p1 xs) = mset xs" and "\<forall>xs. mset (p2 xs) = mset xs"
    and "\<forall>xs. mset (p3 xs) = mset xs" and "unique_ids sources"
  shows "processSources sk (retrieved p1 p2 p3 sources) fx = processSources sk sources fx \<and>
         flatten_sources (retrieved p1 p2 p3 sources) = flatten_sources sources \<and>
         sorted (map (\<lambda>s. row_id (source_columns s))
                   (sort_key (\<lambda>s. row_id (source_columns s)) sources)) \<and>
         flatten_sources sources =
           map flatten_source (sort_key (\<lambda>s. row_id (source_columns s)) sources) \<and>
         ''id'' \<notin> set (keys_of (flatten_source source)) \<and>
         ''id'' \<notin> set (keys_of (flatten_section section)) \<and>
         ''sourceId'' \<notin> set (keys_of (flatten_section section)) \<and>
         ''id'' \<notin> set (keys_of (flatten_subsection subsection)) \<and>
         ''sectionId'' \<notin> set (keys_of (flatten_subsection subsection))"
proof -
  have "''id'' \<notin> set (keys_of (flatten_source source))"
    by (simp add: keys_of_def flatten_source_def update_keys_subset without_keys)
  moreover have "''id'' \<notin> set (keys_of (flatten_section section))"
    "''sourceId'' \<notin> set (keys_of (flatten_section section))"
    by (simp_all add: keys_of_def flatten_section_def update_keys_subset without_keys)
  moreover have "''id'' \<notin> set (keys_of (flatten_subsection subsection))"
    "''sectionId'' \<notin> set (keys_of (flatten_subsection subsection))"
    by (simp_all add: keys_of_def flatten_subsection_def without_keys)
  ultimately show ?thesis
    using processSources_perm [OF assms] flatten_sources_perm [OF assms]
    by (simp add: flatten_sources_def)
qed

text \<open>Claim C6 at two sources retrieved in descending order of id, one of them with two
  sections and two subsections in descending order, and at the reversal of all three
  levels.\<close>

theorem relation_flattener_witness:
  "unique_ids two_sources \<and>
   processSources snake_case (retrieved rev rev rev two_sources) \<lparr>console = [], saved = []\<rparr> =
     processSources snake_case two_sources \<lparr>console = [], saved = []\<rparr> \<and>
   processSources snake_case two_sources \<lparr>console = [], saved = []\<rparr> =
     \<lparr>console = [''\<newline>Processing sources'', ''Compiling source Guru Granth'',
                 ''Compiling source Dasam Granth'', ''Saved ./data.tmp/sources.json''],
      saved = [(''./data.tmp/sources.json'',
         JArr [JObj [(''name_english'', JStr ''Guru Granth''),
                     (''sections'',
                      JArr [JObj [(''name_english'', JStr ''Jap''), (''subsections'', JArr [])],
                            JObj [(''name_english'', JStr ''Raag Asa''),
                                  (''subsections'',
                                   JArr [JObj [(''name_english'', JStr ''Chhant'')],
                                         JObj [(''name_english'', JStr ''Vaar'')]])]])],
               JObj [(''name_english'', JStr ''Dasam Granth''), (''sections'', JArr [])]])]\<rparr>"
proof -
  have p: "\<forall>xs::source_row list. mset (rev xs) = mset xs"
    "\<forall>xs::section_row list. mset (rev xs) = mset xs"
    "\<forall>xs::obj list. mset (rev xs) = mset xs"
    by simp_all
  have u: "unique_ids two_sources"
    by code_simp
  have v: "processSources snake_case two_sources \<lparr>console = [], saved = []\<rparr> =
     \<lparr>console = [''\<newline>Processing sources'', ''Compiling source Guru Granth'',
                 ''Compiling source Dasam Granth'', ''Saved ./data.tmp/sources.json''],
      saved = [(''./data.tmp/sources.json'',
         JArr [JObj [(''name_english'', JStr ''Guru Granth''),
                     (''sections'',
                      JArr [JObj [(''name_english'', JStr ''Jap''), (''subsections'', JArr [])],
                            JObj [(''name_english'', JStr ''Raag Asa''),
                                  (''subsections'',
                                   JArr [JObj [(''name_english'', JStr ''Chhant'')],
                                         JObj [(''name_english'', JStr ''Vaar'')]])]])],
               JObj [(''name_english'', JStr ''Dasam Granth''), (''sections'', JArr [])]])]\<rparr>"
    by code_simp
  from relation_flattener_deterministic [OF p u, of snake_case "\<lparr>console = [], saved = []\<rparr>"]
  show ?thesis
    using u v by simp
qed

section \<open>Properties of the grouping of content and translations\<close>

lemma foldl_update_keys:
  "fst ` set (foldl (\<lambda>acc x. AList.update (k x) (v x) acc) acc xs) = fst ` set acc \<union> k ` set xs"
  by (induction xs arbitrary: acc) (auto simp: dom_update)

lemma foldl_update_distinct:
  "distinct (map fst acc) \<Longrightarrow> distinct (map fst (foldl (\<lambda>acc x. AList.update (k x) (v x) acc) acc xs))"
  by (induction xs arbitrary: acc) (auto simp: distinct_update)

lemma foldl_update_map_of:
  "map_of (foldl (\<lambda>acc x. AList.update (k x) (v x) acc) acc xs) =
   map_of acc ++ map_of (rev (map (\<lambda>x. (k x, v x)) xs))"
proof (induction xs arbitrary: acc)
  case Nil
  then show ?case by simp
next
  case (Cons x xs)
  show ?case
    by (simp add: Cons update_conv' map_add_upd_left fun_eq_iff map_add_def split: option.splits)
qed

lemma group_content_keys:
  "distinct (map fst (group_content rows))"
  "fst ` set (group_content rows) = publication ` set rows"
  "length (group_content rows) = card (publication ` set rows)"
proof -
  show d: "distinct (map fst (group_content rows))"
    unfolding group_content_def by (rule foldl_update_distinct) simp
  show k: "fst ` set (group_content rows) = publication ` set rows"
    unfolding group_content_def by (simp add: foldl_update_keys)
  have "length (group_content rows) = length (map fst (group_content rows))" by simp
  also have "\<dots> = card (set (map fst (group_content rows)))"
    using d by (simp only: distinct_card)
  finally show "length (group_content rows) = card (publication ` set rows)"
    using k by simp
qed

lemma group_content_last_wins:
  assumes "publication row \<notin> publication ` set later"
  shows "map_of (group_content (earlier @ row # later)) (publication row) =
         Some (JStr (content_gurmukhi row))"
proof -
  have "map_of (rev (map (\<lambda>x. (publication x, JStr (content_gurmukhi x))) later)) (publication row) = None"
    using assms by (simp add: map_of_eq_None_iff image_image)
  then show ?thesis
    unfolding group_content_def foldl_update_map_of
    by (simp add: map_add_def)
qed


lemma leaf_keys_set:
  assumes "well_grouped acc"
  shows "set (leaf_keys acc) =
         {(l, s). \<exists>inner. map_of acc l = Some (JObj inner) \<and> s \<in> fst ` set inner}"
proof -
  have 1: "set (leaf_keys acc) = {(l, s). \<exists>v. (l, v) \<in> set acc \<and> s \<in> fst ` set (properties v)}"
    by (force simp: leaf_keys_def)
  have "(\<exists>v. (l, v) \<in> set acc \<and> s \<in> fst ` set (properties v)) \<longleftrightarrow>
        (\<exists>inner. map_of acc l = Some (JObj inner) \<and> s \<in> fst ` set inner)" for l s
  proof
    assume "\<exists>v. (l, v) \<in> set acc \<and> s \<in> fst ` set (properties v)"
    then obtain v where v: "(l, v) \<in> set acc" "s \<in> fst ` set (properties v)" by blast
    from assms v(1) obtain inner where inner: "v = JObj inner"
      by (auto simp: well_grouped_def list_all_iff)
    from assms v(1) have "map_of acc l = Some v"
      by (simp add: well_grouped_def)
    with v(2) inner show "\<exists>inner. map_of acc l = Some (JObj inner) \<and> s \<in> fst ` set inner"
      by (simp add: properties_def)
  next
    assume "\<exists>inner. map_of acc l = Some (JObj inner) \<and> s \<in> fst ` set inner"
    then obtain inner where inner: "map_of acc l = Some (JObj inner)" "s \<in> fst ` set inner" by blast
    from inner(1) have "(l, JObj inner) \<in> set acc" by (rule map_of_SomeD)
    moreover have "s \<in> fst ` set (properties (JObj inner))"
      using inner(2) by (simp add: properties_def)
    ultimately show "\<exists>v. (l, v) \<in> set acc \<and> s \<in> fst ` set (properties v)" by blast
  qed
  then show ?thesis unfolding 1 by simp
qed

lemma leaf_keys_distinct:
  assumes "well_grouped acc"
  shows "distinct (leaf_keys acc)"
  using assms
proof (induction acc)
  case Nil
  then show ?case by (simp add: leaf_keys_def)
next
  case (Cons p acc)
  obtain l v where p: "p = (l, v)" by (cases p)
  from Cons.prems obtain inner where v: "v = JObj inner" "distinct (map fst inner)"
    by (auto simp: well_grouped_def p)
  from Cons.prems have w: "well_grouped acc" and l: "l \<notin> fst ` set acc"
    by (auto simp: well_grouped_def p)
  have "distinct (map (\<lambda>(source, leaf). (l, source)) inner)"
    using v(2) by (simp add: distinct_map inj_on_def case_prod_unfold)
  moreover have "set (map (\<lambda>(source, leaf). (l, source)) inner) \<inter> set (leaf_keys acc) = {}"
    using l by (force simp: leaf_keys_def)
  ultimately show ?case
    using Cons.IH [OF w] by (simp add: leaf_keys_def p v properties_def)
qed

lemma in_update_cases:
  "(a, b) \<in> set (AList.update k v al) \<Longrightarrow> (a = k \<and> b = v) \<or> (a, b) \<in> set al"
  by (induction al) (auto split: if_splits)

lemma translation_step_shape:
  assumes "translation_step parse sk acc row = Inr acc'"
  obtains leaf where
    "acc' = AList.update (languageName row)
              (JObj (AList.update (translationSourceName row) leaf
                       (properties (get acc (languageName row))))) acc"
  using assms by (auto simp: translation_step_def split: sum.splits)

lemma grouped_inner:
  assumes "well_grouped acc"
  shows "distinct (map fst (properties (get acc l)))"
    and "s \<in> fst ` set (properties (get acc l)) \<longleftrightarrow> (l, s) \<in> set (leaf_keys acc)"
proof -
  show "distinct (map fst (properties (get acc l)))"
  proof (cases "map_of acc l")
    case None
    then show ?thesis by (simp add: get_def properties_def)
  next
    case (Some v)
    then have "(l, v) \<in> set acc" by (rule map_of_SomeD)
    with assms obtain inner where "v = JObj inner" "distinct (map fst inner)"
      by (auto simp: well_grouped_def list_all_iff)
    with Some show ?thesis by (simp add: get_def properties_def)
  qed
  show "s \<in> fst ` set (properties (get acc l)) \<longleftrightarrow> (l, s) \<in> set (leaf_keys acc)"
  proof (cases "map_of acc l")
    case None
    then show ?thesis
      unfolding leaf_keys_set [OF assms] by (simp add: get_def properties_def)
  next
    case (Some v)
    then have "(l, v) \<in> set acc" by (rule map_of_SomeD)
    with assms obtain inner where "v = JObj inner"
      by (auto simp: well_grouped_def list_all_iff)
    with Some show ?thesis
      unfolding leaf_keys_set [OF assms] by (simp add: get_def properties_def)
  qed
qed

lemma translation_step_grouped:
  assumes "well_grouped acc" and "translation_step parse sk acc row = Inr acc'"
  shows "well_grouped acc' \<and>
         set (leaf_keys acc') = insert (languageName row, translationSourceName row) (set (leaf_keys acc))"
proof -
  let ?l = "languageName row" and ?s = "translationSourceName row"
  define inner0 where "inner0 = properties (get acc ?l)"
  from assms(2) obtain leaf where acc': "acc' = AList.update ?l (JObj (AList.update ?s leaf inner0)) acc"
    unfolding inner0_def by (rule translation_step_shape)
  have inner0: "distinct (map fst inner0)"
    unfolding inner0_def using assms(1) by (rule grouped_inner)
  have keys0: "s \<in> fst ` set inner0 \<longleftrightarrow> (?l, s) \<in> set (leaf_keys acc)" for s
    unfolding inner0_def using assms(1) by (rule grouped_inner)
  have d: "distinct (map fst acc')"
    using assms(1) by (simp add: acc' well_grouped_def distinct_update)
  have "\<exists>inner. b = JObj inner \<and> distinct (map fst inner)" if "(a, b) \<in> set acc'" for a b
  proof -
    from that consider "b = JObj (AList.update ?s leaf inner0)" | "(a, b) \<in> set acc"
      unfolding acc' by (auto dest: in_update_cases)
    then show ?thesis
    proof cases
      case 1
      then show ?thesis using inner0 by (simp add: distinct_update)
    next
      case 2
      with assms(1) show ?thesis by (auto simp: well_grouped_def list_all_iff)
    qed
  qed
  with d have w: "well_grouped acc'"
    by (auto simp: well_grouped_def list_all_iff)
  have "(l, s) \<in> set (leaf_keys acc') \<longleftrightarrow>
        (l, s) \<in> insert (?l, ?s) (set (leaf_keys acc))" for l s
  proof (cases "l = ?l")
    case True
    have "(?l, s) \<in> set (leaf_keys acc') \<longleftrightarrow> s \<in> fst ` set (AList.update ?s leaf inner0)"
      unfolding leaf_keys_set [OF w] by (simp add: acc' update_conv')
    also have "\<dots> \<longleftrightarrow> s = ?s \<or> s \<in> fst ` set inner0"
      by (simp add: dom_update)
    finally show ?thesis using keys0 True by simp
  next
    case False
    then show ?thesis
      unfolding leaf_keys_set [OF w] leaf_keys_set [OF assms(1)]
      by (simp add: acc' update_conv')
  qed
  then have "set (leaf_keys acc') = insert (?l, ?s) (set (leaf_keys acc))"
    by (intro set_eqI) (simp add: split_paired_all)
  with w show ?thesis by simp
qed

lemma group_translations_grouped:
  assumes "well_grouped acc" and "group_translations parse sk acc rows = Inr grouped"
  shows "well_grouped grouped \<and>
         set (leaf_keys grouped) =
           set (leaf_keys acc) \<union> (\<lambda>t. (languageName t, translationSourceName t)) ` set rows"
  using assms
proof (induction rows arbitrary: acc)
  case Nil
  then show ?case by simp
next
  case (Cons row rows)
  from Cons.prems(2) obtain acc' where
    step: "translation_step parse sk acc row = Inr acc'" and
    rest: "group_translations parse sk acc' rows = Inr grouped"
    by (auto split: sum.splits)
  from translation_step_grouped [OF Cons.prems(1) step] Cons.IH [OF _ rest]
  show ?case by auto
qed

lemma group_translations_fails:
  "group_translations parse sk acc rows = Inl e \<Longrightarrow>
   \<exists>t \<in> set rows. parse (additionalInformation t) = Inl e"
  by (induction rows arbitrary: acc) (auto simp: translation_step_def split: sum.splits)

lemma group_translations_malformed:
  "t \<in> set rows \<Longrightarrow> parse (additionalInformation t) = Inl e0 \<Longrightarrow>
   \<exists>e. group_translations parse sk acc rows = Inl e"
proof (induction rows arbitrary: acc)
  case Nil
  then show ?case by simp
next
  case (Cons row rows)
  show ?case
  proof (cases "translation_step parse sk acc row")
    case (Inl e)
    then show ?thesis by simp
  next
    case (Inr acc')
    then have "parse (additionalInformation row) \<noteq> Inl e0"
      by (auto simp: translation_step_def split: sum.splits)
    with Cons.prems have "t \<in> set rows" by auto
    from Cons.IH [OF this Cons.prems(2)] Inr show ?thesis by simp
  qed
qed

lemma traverse_fails: "traverse f xs = Inl e \<Longrightarrow> \<exists>x \<in> set xs. f x = Inl e"
  by (induction xs) (auto split: sum.splits)

lemma traverse_malformed: "x \<in> set xs \<Longrightarrow> f x = Inl e0 \<Longrightarrow> \<exists>e. traverse f xs = Inl e"
  by (induction xs) (auto split: sum.splits)

lemma compile_line_fails:
  "compile_line parse sk line = Inl e \<longleftrightarrow>
   group_translations parse sk [] (line_translations line) = Inl e"
  by (simp add: compile_line_def Let_def split: sum.splits)

lemma compile_shabad_fails:
  "compile_shabad parse sk shabad = Inl e \<longleftrightarrow>
   traverse (compile_line parse sk) (shabad_lines shabad) = Inl e"
  by (simp add: compile_shabad_def split: sum.splits)

lemma compile_sources_fails:
  "compile_sources parse sk acc sources = Inl e \<Longrightarrow>
   \<exists>source \<in> set sources. traverse (compile_shabad parse sk) (shabads source) = Inl e"
  by (induction sources arbitrary: acc) (auto split: sum.splits)

lemma compile_sources_malformed:
  "source \<in> set sources \<Longrightarrow> traverse (compile_shabad parse sk) (shabads source) = Inl e0 \<Longrightarrow>
   \<exists>e. compile_sources parse sk acc sources = Inl e"
proof (induction sources arbitrary: acc)
  case Nil
  then show ?case by simp
next
  case (Cons s sources)
  show ?case
  proof (cases "traverse (compile_shabad parse sk) (shabads s)")
    case (Inl e)
    then show ?thesis by simp
  next
    case (Inr compiled)
    with Cons.prems have "source \<in> set sources" by auto
    from Cons.IH [OF this Cons.prems(2)] Inr show ?thesis by simp
  qed
qed

lemma compile_sources_error_is_decoders:
  assumes "compile_sources parse sk acc sources = Inl e"
  shows "\<exists>t \<in> set (translation_rows sources). parse (additionalInformation t) = Inl e"
proof -
  from assms obtain source where source: "source \<in> set sources"
    "traverse (compile_shabad parse sk) (shabads source) = Inl e"
    by (auto dest: compile_sources_fails)
  then obtain shabad where shabad: "shabad \<in> set (shabads source)"
    "compile_shabad parse sk shabad = Inl e"
    by (auto dest: traverse_fails)
  then obtain line where line: "line \<in> set (shabad_lines shabad)"
    "compile_line parse sk line = Inl e"
    by (auto simp: compile_shabad_fails dest: traverse_fails)
  then obtain t where "t \<in> set (line_translations line)" "parse (additionalInformation t) = Inl e"
    by (auto simp: compile_line_fails dest: group_translations_fails)
  with source(1) shabad(1) line(1) show ?thesis
    by (auto simp: translation_rows_def)
qed

lemma processLines_aborts:
  assumes "source \<in> set sources" "shabad \<in> set (shabads source)"
    "line \<in> set (shabad_lines shabad)" "t \<in> set (line_translations line)"
    "parse (additionalInformation t) = Inl e0"
  shows "\<exists>e. processLines parse sk sources fx = Inl e \<and>
             (\<exists>t' \<in> set (translation_rows sources). parse (additionalInformation t') = Inl e)"
proof -
  from assms(4,5) obtain e1 where "group_translations parse sk [] (line_translations line) = Inl e1"
    by (blast dest: group_translations_malformed)
  then have "compile_line parse sk line = Inl e1"
    by (simp add: compile_line_fails)
  with assms(3) obtain e2 where "traverse (compile_line parse sk) (shabad_lines shabad) = Inl e2"
    by (blast dest: traverse_malformed)
  then have "compile_shabad parse sk shabad = Inl e2"
    by (simp add: compile_shabad_fails)
  with assms(2) obtain e3 where "traverse (compile_shabad parse sk) (shabads source) = Inl e3"
    by (blast dest: traverse_malformed)
  with assms(1) obtain e where e: "compile_sources parse sk [] sources = Inl e"
    by (blast dest: compile_sources_malformed)
  then have "processLines parse sk sources fx = Inl e"
    by (simp add: processLines_def)
  with compile_sources_error_is_decoders [OF e] show ?thesis by blast
qed

lemma get_update: "get (AList.update k v al) k' = (if k' = k then v else get al k')"
  by (simp add: get_def update_conv')

lemma well_grouped_empty: "well_grouped []"
  by (simp add: well_grouped_def)

text \<open>
  Claim C3, as stated, fails in one part: the error of a malformed \<open>additionalInformation\<close>
  names neither the line nor the translation source. It is the error \<open>JSON.parse\<close> throws,
  passed on unchanged: two runs over different lines and different translation sources
  with the same malformed text fail with the same error.
\<close>

theorem decode_error_counterexample:
  "processLines parse_scenario snake_case
     [\<lparr>nameEnglish = ''Sri Guru Granth Sahib'',
       shabads = [scenario_shabad 1
                    [scenario_line 11 1 [scenario_translation 11 1 ''Dr. Sant Singh Khalsa'' ''{'']]]\<rparr>]
     \<lparr>console = [], saved = []\<rparr> = Inl (SyntaxError ''Unexpected end of JSON input'') \<and>
   processLines parse_scenario snake_case
     [\<lparr>nameEnglish = ''Sri Guru Granth Sahib'',
       shabads = [scenario_shabad 1
                    [scenario_line 12 1 [scenario_translation 12 2 ''Bhai Manmohan Singh'' ''{'']]]\<rparr>]
     \<lparr>console = [], saved = []\<rparr> = Inl (SyntaxError ''Unexpected end of JSON input'')"
  by code_simp

text \<open>
  Claim C3, amended. For every translation row whose encoded \<open>additionalInformation\<close> the
  decoder rejects, \<open>processLines\<close> fails, and with the very error the decoder threw for a
  rejected row of the data, which carries nothing else; nothing is saved, the compilation
  of the dataset is aborted. A row whose text decodes is grouped with the decoded value in
  the place of the text.
\<close>

theorem malformed_translation_aborts:
  assumes "source \<in> set sources" and "shabad \<in> set (shabads source)"
    and "line \<in> set (shabad_lines shabad)" and "t \<in> set (line_translations line)"
    and "parse (additionalInformation t) = Inl e0"
  shows "(\<exists>e. processLines parse sk sources fx = Inl e \<and>
              (\<exists>t' \<in> set (translation_rows sources). parse (additionalInformation t') = Inl e)) \<and>
         (parse (additionalInformation row) = Inr information \<longrightarrow>
            group_translations parse sk [] [row] =
              Inr [(languageName row,
                    JObj [(translationSourceName row,
                           snakeCaseKeys sk
                             (JObj (AList.update ''additionalInformation'' information
                                      (without [''translationSourceId'', ''lineId'', ''translationSource'']
                                         (translation_columns row)))))])])"
proof (intro conjI impI)
  show "\<exists>e. processLines parse sk sources fx = Inl e \<and>
              (\<exists>t' \<in> set (translation_rows sources). parse (additionalInformation t') = Inl e)"
    using assms by (rule processLines_aborts)
next
  assume "parse (additionalInformation row) = Inr information"
  then show "group_translations parse sk [] [row] =
              Inr [(languageName row,
                    JObj [(translationSourceName row,
                           snakeCaseKeys sk
                             (JObj (AList.update ''additionalInformation'' information
                                      (without [''translationSourceId'', ''lineId'', ''translationSource'']
                                         (translation_columns row)))))])]"
    by (simp add: translation_step_def get_def properties_def)
qed

text \<open>The amended claim at the scenario: the text \<open>{\<close> aborts the run with the error of the
  decoder, and the text \<open>{}\<close> becomes the empty object under \<open>additional_information\<close>.\<close>

theorem malformed_translation_witness:
  "processLines parse_scenario snake_case
     [\<lparr>nameEnglish = ''Sri Guru Granth Sahib'',
       shabads = [scenario_shabad 1
                    [scenario_line 11 1 [scenario_translation 11 1 ''Dr. Sant Singh Khalsa'' ''{'']]]\<rparr>]
     \<lparr>console = [], saved = []\<rparr> = Inl (SyntaxError ''Unexpected end of JSON input'') \<and>
   group_translations parse_scenario snake_case []
     [scenario_translation 11 1 ''Dr. Sant Singh Khalsa'' ''{}''] =
     Inr [(''English'',
           JObj [(''Dr. Sant Singh Khalsa'',
                  JObj [(''translation'', JStr ''True is the Name''),
                        (''additional_information'', JObj [])])])]"
proof -
  let ?t = "scenario_translation 11 1 ''Dr. Sant Singh Khalsa'' ''{''"
  let ?line = "scenario_line 11 1 [?t]"
  let ?shabad = "scenario_shabad 1 [?line]"
  let ?source = "\<lparr>nameEnglish = ''Sri Guru Granth Sahib'', shabads = [?shabad]\<rparr>"
  let ?row = "scenario_translation 11 1 ''Dr. Sant Singh Khalsa'' ''{}''"
  have 1: "?source \<in> set [?source]" and 2: "?shabad \<in> set (shabads ?source)"
    by simp_all
  have 3: "?line \<in> set (shabad_lines ?shabad)"
    by (simp add: scenario_shabad_def)
  have 4: "?t \<in> set (line_translations ?line)"
    by (simp add: scenario_line_def)
  have 5: "parse_scenario (additionalInformation ?t) = Inl (SyntaxError ''Unexpected end of JSON input'')"
    by (simp add: scenario_translation_def parse_scenario_def)
  have 6: "parse_scenario (additionalInformation ?row) = Inr (JObj [])"
    by (simp add: scenario_translation_def parse_scenario_def)
  have v: "processLines parse_scenario snake_case [?source] \<lparr>console = [], saved = []\<rparr> =
           Inl (SyntaxError ''Unexpected end of JSON input'')"
    by code_simp
  have w: "snakeCaseKeys snake_case
             (JObj (AList.update ''additionalInformation'' (JObj [])
                      (without [''translationSourceId'', ''lineId'', ''translationSource'']
                         (translation_columns ?row)))) =
           JObj [(''translation'', JStr ''True is the Name''), (''additional_information'', JObj [])]"
    by code_simp
  have n: "languageName ?row = ''English''" "translationSourceName ?row = ''Dr. Sant Singh Khalsa''"
    by (simp_all add: scenario_translation_def)
  from malformed_translation_aborts [of ?source "[?source]" ?shabad ?line ?t parse_scenario
      "SyntaxError ''Unexpected end of JSON input''" snake_case "\<lparr>console = [], saved = []\<rparr>"
      ?row "JObj []", OF 1 2 3 4 5]
  have "group_translations parse_scenario snake_case [] [?row] =
        Inr [(''English'',
           JObj [(''Dr. Sant Singh Khalsa'',
                  JObj [(''translation'', JStr ''True is the Name''),
                        (''additional_information'', JObj [])])])]"
    using 6 unfolding w n by simp
  with v show ?thesis by simp
qed

text \<open>
  Claim C5. For every line that compiles, the emitted line has under \<open>gurmukhi\<close> the content
  mapping and under \<open>translations\<close> the translation mapping. The content mapping has one key
  for every distinct publication name among the content rows, \<open>k\<close> keys for \<open>k\<close> names, and
  the value at a name is that of the last row of that name. The translation mapping has
  one leaf for every distinct pair of language and translation source among the
  translation rows, \<open>m\<close> leaves for \<open>m\<close> pairs, each under its language and then its source.
\<close>

theorem grouped_line_counts:
  assumes "compile_line parse sk line = Inr out"
  shows "\<exists>c g.
           get (properties out) ''gurmukhi'' = JObj c \<and>
           get (properties out) ''translations'' = JObj g \<and>
           c = group_content (line_content line) \<and>
           group_translations parse sk [] (line_translations line) = Inr g \<and>
           length c = card (publication ` set (line_content line)) \<and>
           distinct (map fst c) \<and>
           (\<forall>earlier row later.
              line_content line = earlier @ row # later \<and> publication row \<notin> publication ` set later \<longrightarrow>
              map_of c (publication row) = Some (JStr (content_gurmukhi row))) \<and>
           length (leaf_keys g) =
             card ((\<lambda>t. (languageName t, translationSourceName t)) ` set (line_translations line)) \<and>
           distinct (leaf_keys g) \<and>
           set (leaf_keys g) =
             (\<lambda>t. (languageName t, translationSourceName t)) ` set (line_translations line) \<and>
           (\<forall>t \<in> set (line_translations line).
              translationSourceName t \<in> fst ` set (properties (get g (languageName t))))"
proof -
  from assms obtain g where g: "group_translations parse sk [] (line_translations line) = Inr g"
    by (auto simp: compile_line_def Let_def split: sum.splits)
  let ?c = "group_content (line_content line)"
  let ?pairs = "(\<lambda>t. (languageName t, translationSourceName t)) ` set (line_translations line)"
  from assms g have out: "get (properties out) ''gurmukhi'' = JObj ?c"
    "get (properties out) ''translations'' = JObj g"
    by (auto simp: compile_line_def Let_def properties_def get_update)
  from group_translations_grouped [OF well_grouped_empty g]
  have w: "well_grouped g" and s: "set (leaf_keys g) = ?pairs"
    by (simp_all add: leaf_keys_def)
  have d: "distinct (leaf_keys g)"
    using w by (rule leaf_keys_distinct)
  have "length (leaf_keys g) = card (set (leaf_keys g))"
    using d by (simp only: distinct_card)
  then have n: "length (leaf_keys g) = card ?pairs"
    using s by simp
  have nested: "translationSourceName t \<in> fst ` set (properties (get g (languageName t)))"
    if "t \<in> set (line_translations line)" for t
    unfolding grouped_inner(2) [OF w] s using that by blast
  have last: "map_of ?c (publication row) = Some (JStr (content_gurmukhi row))"
    if "line_content line = earlier @ row # later \<and> publication row \<notin> publication ` set later"
    for earlier row later
    using that group_content_last_wins [of row later earlier] by simp
  show ?thesis
    using out g group_content_keys(1,3) [of "line_content line"] n d s nested last
    by (intro exI [of _ ?c] exI [of _ g]) blast
qed

text \<open>Claim C5 at a line with three content rows of two publications and three translations
  of two pairs: two keys, the later text under \<open>SGPC\<close>, and two leaves.\<close>

theorem grouped_line_witness:
  "compile_line parse_scenario snake_case scenario_line_duplicates =
     Inr (JObj [(''id'', JNum 11), (''source_page'', JNum 1), (''type'', JStr ''Pankti''),
                (''gurmukhi'', JObj [(''SGPC'', JStr ''siq nwmu''), (''Larivaar'', JStr ''siqnwmu'')]),
                (''translations'',
                 JObj [(''English'',
                        JObj [(''Dr. Sant Singh Khalsa'',
                               JObj [(''translation'', JStr ''True is the Name''),
                                     (''additional_information'', JObj [])]),
                              (''Bhai Manmohan Singh'',
                               JObj [(''translation'', JStr ''True is the Name''),
                                     (''additional_information'', JObj [])])])])]) \<and>
   (\<exists>c g. get (properties (JObj [(''id'', JNum 11), (''source_page'', JNum 1), (''type'', JStr ''Pankti''),
                (''gurmukhi'', JObj [(''SGPC'', JStr ''siq nwmu''), (''Larivaar'', JStr ''siqnwmu'')]),
                (''translations'',
                 JObj [(''English'',
                        JObj [(''Dr. Sant Singh Khalsa'',
                               JObj [(''translation'', JStr ''True is the Name''),
                                     (''additional_information'', JObj [])]),
                              (''Bhai Manmohan Singh'',
                               JObj [(''translation'', JStr ''True is the Name''),
                                     (''additional_information'', JObj [])])])])])) ''gurmukhi'' = JObj c \<and>
          length c = card (publication ` set (line_content scenario_line_duplicates)) \<and>
          length c = 2 \<and>
          length (leaf_keys g) = 2)"
proof -
  let ?out = "JObj [(''id'', JNum 11), (''source_page'', JNum 1), (''type'', JStr ''Pankti''),
                (''gurmukhi'', JObj [(''SGPC'', JStr ''siq nwmu''), (''Larivaar'', JStr ''siqnwmu'')]),
                (''translations'',
                 JObj [(''English'',
                        JObj [(''Dr. Sant Singh Khalsa'',
                               JObj [(''translation'', JStr ''True is the Name''),
                                     (''additional_information'', JObj [])]),
                              (''Bhai Manmohan Singh'',
                               JObj [(''translation'', JStr ''True is the Name''),
                                     (''additional_information'', JObj [])])])])]"
  have v: "compile_line parse_scenario snake_case scenario_line_duplicates = Inr ?out"
    by code_simp
  from grouped_line_counts [OF v] obtain c g where
    c: "get (properties ?out) ''gurmukhi'' = JObj c"
      "length c = card (publication ` set (line_content scenario_line_duplicates))" and
    g: "get (properties ?out) ''translations'' = JObj g"
    by blast
  from c(1) have "c = [(''SGPC'', JStr ''siq nwmu''), (''Larivaar'', JStr ''siqnwmu'')]"
    by (simp add: properties_def get_def)
  moreover from g have "leaf_keys g = [(''English'', ''Dr. Sant Singh Khalsa''), (''English'', ''Bhai Manmohan Singh'')]"
    by (auto simp: properties_def get_def leaf_keys_def)
  ultimately show ?thesis
    using v c by (intro conjI exI [of _ c] exI [of _ g]) simp_all
qed

section \<open>Properties of the emitted shabad\<close>

lemma rename_keys_fold:
  "map_of (foldl (\<lambda>target (key, val). AList.update (sk key) val target) acc kvs) (sk k0) =
   (case map_of kvs k0 of Some v \<Rightarrow> Some v | None \<Rightarrow> map_of acc (sk k0))"
  if "distinct (map fst kvs)" "\<forall>k \<in> fst ` set kvs. sk k = sk k0 \<longrightarrow> k = k0"
  using that
proof (induction kvs arbitrary: acc)
  case Nil
  then show ?case by simp
next
  case (Cons p kvs)
  obtain k v where p: "p = (k, v)" by (cases p)
  from Cons.prems have d: "distinct (map fst kvs)" and
    o: "\<forall>k \<in> fst ` set kvs. sk k = sk k0 \<longrightarrow> k = k0" and kn: "k \<notin> fst ` set kvs"
    by (auto simp: p)
  show ?case
  proof (cases "k = k0")
    case True
    with kn have "map_of kvs k0 = None" by (simp add: map_of_eq_None_iff)
    with True show ?thesis
      using Cons.IH [OF d o, of "AList.update (sk k) v acc"] by (simp add: p update_conv')
  next
    case False
    with Cons.prems(2) have "sk k \<noteq> sk k0" by (auto simp: p)
    with False show ?thesis
      using Cons.IH [OF d o, of "AList.update (sk k) v acc"]
      by (simp add: p update_conv' split: option.splits)
  qed
qed

lemma rename_keys_lookup:
  assumes "distinct (map fst kvs)" "\<forall>k \<in> fst ` set kvs. sk k = sk k0 \<longrightarrow> k = k0"
  shows "map_of (rename_keys sk kvs) (sk k0) = map_of kvs k0"
  using rename_keys_fold [OF assms, of "[]"] by (simp add: rename_keys_def split: option.splits)

lemma rename_keys_distinct: "distinct (map fst (rename_keys sk kvs))"
proof -
  have "distinct (map fst acc) \<Longrightarrow>
        distinct (map fst (foldl (\<lambda>target (key, val). AList.update (sk key) val target) acc kvs))" for acc
    by (induction kvs arbitrary: acc) (auto simp: distinct_update)
  then show ?thesis by (simp add: rename_keys_def)
qed

lemma to_json_absent:
  assumes "distinct (map fst kvs)" "map_of kvs k = Some JUndefined"
  shows "k \<notin> set (keys_of (to_json (JObj kvs)))"
proof
  assume "k \<in> set (keys_of (to_json (JObj kvs)))"
  then obtain v where "(k, v) \<in> set kvs" "v \<noteq> JUndefined"
    by (auto simp: keys_of_def)
  with assms show False by simp
qed

lemma to_json_present:
  assumes "distinct (map fst kvs)" "map_of kvs k = Some v" "v \<noteq> JUndefined"
  shows "map_of (properties (to_json (JObj kvs))) k = Some (to_json v)"
proof -
  let ?kept = "filter (\<lambda>(key, val). val \<noteq> JUndefined) kvs"
  have "distinct (map fst (map (\<lambda>(key, val). (key, to_json val)) ?kept))"
    using assms(1) by (simp add: comp_def case_prod_unfold distinct_map_filter)
  moreover have "(k, to_json v) \<in> set (map (\<lambda>(key, val). (key, to_json val)) ?kept)"
    using assms(2,3) by (force dest: map_of_SomeD)
  ultimately show ?thesis
    by (simp add: properties_def)
qed


lemma shabad_head_merged:
  "shabad_head sk shabad =
     rename_keys sk (map (\<lambda>(key, val). (key, snakeCaseKeys sk val)) (merged_shabad shabad))"
  by (simp add: shabad_head_def properties_def)

lemma merged_shabad_keys:
  "fst ` set (merged_shabad shabad) = set head_keys \<union> fst ` set (shabad_columns shabad)"
  unfolding merged_shabad_def head_keys_def by (simp add: dom_update)

lemma merged_shabad_distinct:
  "distinct (map fst (shabad_columns shabad)) \<Longrightarrow> distinct (map fst (merged_shabad shabad))"
  by (simp add: merged_shabad_def distinct_update)

lemma merged_shabad_lookup:
  "map_of (merged_shabad shabad) ''writerId'' = Some JUndefined"
  "map_of (merged_shabad shabad) ''sourceId'' = Some JUndefined"
  "map_of (merged_shabad shabad) ''sectionId'' = Some JUndefined"
  "map_of (merged_shabad shabad) ''subsectionId'' = Some JUndefined"
  "map_of (merged_shabad shabad) ''orderId'' = Some JUndefined"
  "map_of (merged_shabad shabad) ''writer'' = Some (JStr (shabad_writer shabad))"
  "map_of (merged_shabad shabad) ''section'' = Some (JStr (shabad_section shabad))"
  "map_of (merged_shabad shabad) ''subsection'' =
     Some (case shabad_subsection shabad of
             None \<Rightarrow> JNull
           | Some name \<Rightarrow> if name = [] then JNull else JStr name)"
  by (simp_all add: merged_shabad_def update_conv')

lemma map_of_map_values:
  "map_of (map (\<lambda>(key, val). (key, f val)) kvs) k = map_option f (map_of kvs k)"
  by (induction kvs) auto

lemma shabad_head_lookup:
  assumes d: "distinct (map fst (shabad_columns shabad))"
    and inj: "distinct (map sk head_keys)"
    and others: "\<forall>key \<in> fst ` set (shabad_columns shabad).
                   sk key \<in> sk ` set head_keys \<longrightarrow> key \<in> set head_keys"
    and k0: "k0 \<in> set head_keys"
  shows "map_of (shabad_head sk shabad) (sk k0) =
         map_option (snakeCaseKeys sk) (map_of (merged_shabad shabad) k0)"
proof -
  let ?m = "map (\<lambda>(key, val). (key, snakeCaseKeys sk val)) (merged_shabad shabad)"
  have keys: "fst ` set ?m = set head_keys \<union> fst ` set (shabad_columns shabad)"
    using merged_shabad_keys [of shabad] by (simp add: image_image case_prod_unfold)
  have dm: "distinct (map fst ?m)"
    using merged_shabad_distinct [OF d] by (simp add: comp_def case_prod_unfold)
  have "k = k0" if "k \<in> fst ` set ?m" "sk k = sk k0" for k
  proof -
    from that(1) keys consider "k \<in> set head_keys" | "k \<in> fst ` set (shabad_columns shabad)"
      by blast
    then have "k \<in> set head_keys"
    proof cases
      case 1
      then show ?thesis .
    next
      case 2
      with others that(2) k0 show ?thesis by auto
    qed
    with inj k0 that(2) show ?thesis
      by (auto simp: distinct_map dest: inj_onD)
  qed
  then have "\<forall>k \<in> fst ` set ?m. sk k = sk k0 \<longrightarrow> k = k0" by blast
  from rename_keys_lookup [OF dm this] show ?thesis
    by (simp add: shabad_head_merged map_of_map_values)
qed


text \<open>
  Claim C10. For every shabad without a subsection that compiles (its columns are the
  properties of one object, the key renaming turns the eight names into their snake-case
  forms, and no other column is renamed to one of these): the compiled object has the
  property \<open>subsection\<close> with the value \<open>null\<close> and the join keys \<open>writer_id\<close>, \<open>source_id\<close>,
  \<open>section_id\<close>, \<open>subsection_id\<close> and \<open>order_id\<close> with the value \<open>undefined\<close>; so the written
  object has \<open>subsection\<close> with \<open>null\<close> and none of the join keys, and its \<open>writer\<close> and
  \<open>section\<close> are the names of the writer and of the section.
\<close>

theorem shabad_without_subsection:
  assumes "compile_shabad parse sk shabad = Inr out"
    and "shabad_subsection shabad = None"
    and "distinct (map fst (shabad_columns shabad))"
    and "map sk head_keys = [''writer_id'', ''source_id'', ''section_id'', ''order_id'',
                              ''subsection_id'', ''writer'', ''section'', ''subsection'']"
    and "\<forall>key \<in> fst ` set (shabad_columns shabad).
           sk key \<in> sk ` set head_keys \<longrightarrow> key \<in> set head_keys"
  shows "map_of (properties out) ''subsection'' = Some JNull \<and>
         map_of (properties out) ''writer_id'' = Some JUndefined \<and>
         map_of (properties out) ''source_id'' = Some JUndefined \<and>
         map_of (properties out) ''section_id'' = Some JUndefined \<and>
         map_of (properties out) ''subsection_id'' = Some JUndefined \<and>
         map_of (properties out) ''order_id'' = Some JUndefined \<and>
         map_of (properties (to_json out)) ''subsection'' = Some JNull \<and>
         ''writer_id'' \<notin> set (keys_of (to_json out)) \<and>
         ''source_id'' \<notin> set (keys_of (to_json out)) \<and>
         ''section_id'' \<notin> set (keys_of (to_json out)) \<and>
         ''subsection_id'' \<notin> set (keys_of (to_json out)) \<and>
         ''order_id'' \<notin> set (keys_of (to_json out)) \<and>
         map_of (properties (to_json out)) ''writer'' = Some (JStr (shabad_writer shabad)) \<and>
         map_of (properties (to_json out)) ''section'' = Some (JStr (shabad_section shabad))"
proof -
  from assms(1) obtain compiled where
    out: "out = JObj (AList.update ''lines'' (JArr compiled) (shabad_head sk shabad))"
    by (auto simp: compile_shabad_def split: sum.splits)
  let ?h = "AList.update ''lines'' (JArr compiled) (shabad_head sk shabad)"
  have sk: "sk ''writerId'' = ''writer_id''" "sk ''sourceId'' = ''source_id''"
    "sk ''sectionId'' = ''section_id''" "sk ''orderId'' = ''order_id''"
    "sk ''subsectionId'' = ''subsection_id''" "sk ''writer'' = ''writer''"
    "sk ''section'' = ''section''" "sk ''subsection'' = ''subsection''"
    using assms(4) by (simp_all add: head_keys_def)
  have inj: "distinct (map sk head_keys)"
    unfolding assms(4) by simp
  note look = shabad_head_lookup [OF assms(3) inj assms(5)]
  have d: "distinct (map fst ?h)"
    by (simp add: shabad_head_merged rename_keys_distinct distinct_update)
  have u: "map_of ?h ''writer_id'' = Some JUndefined" "map_of ?h ''source_id'' = Some JUndefined"
    "map_of ?h ''section_id'' = Some JUndefined" "map_of ?h ''order_id'' = Some JUndefined"
    "map_of ?h ''subsection_id'' = Some JUndefined"
    using look [of "''writerId''"] look [of "''sourceId''"] look [of "''sectionId''"]
      look [of "''orderId''"] look [of "''subsectionId''"]
    by (simp_all add: update_conv' sk head_keys_def merged_shabad_lookup)
  have p: "map_of ?h ''writer'' = Some (JStr (shabad_writer shabad))"
    "map_of ?h ''section'' = Some (JStr (shabad_section shabad))"
    "map_of ?h ''subsection'' = Some JNull"
    using look [of "''writer''"] look [of "''section''"] look [of "''subsection''"] assms(2)
    by (simp_all add: update_conv' sk head_keys_def merged_shabad_lookup)
  have m: "properties (JObj ?h) = ?h"
    by (simp add: properties_def)
  show ?thesis
    unfolding out m
    using u p(3) to_json_absent [OF d u(1)] to_json_absent [OF d u(2)] to_json_absent [OF d u(3)]
      to_json_absent [OF d u(4)] to_json_absent [OF d u(5)]
      to_json_present [OF d p(1)] to_json_present [OF d p(2)] to_json_present [OF d p(3)]
    by simp
qed

text \<open>Claim C10 at the scenario shabad: the compiled object, and what is written of it.\<close>

theorem shabad_without_subsection_witness:
  "compile_shabad parse_scenario snake_case
     (scenario_shabad 1 [scenario_line 11 1 [scenario_translation 11 1 ''Dr. Sant Singh Khalsa'' ''{}'']]) =
     Inr scenario_compiled \<and>
   to_json scenario_compiled =
     JObj [(''id'', JNum 1), (''writer'', JStr ''Guru Nanak Dev Ji''), (''section'', JStr ''Jap''),
           (''subsection'', JNull),
           (''lines'',
            JArr [JObj [(''id'', JNum 11), (''source_page'', JNum 1), (''type'', JNull),
                        (''gurmukhi'', JObj [(''SGPC'', JStr ''siq nwmu'')]),
                        (''translations'',
                         JObj [(''English'',
                                JObj [(''Dr. Sant Singh Khalsa'',
                                       JObj [(''translation'', JStr ''True is the Name''),
                                             (''additional_information'', JObj [])])])])]])] \<and>
   map_of (properties (to_json scenario_compiled)) ''subsection'' = Some JNull \<and>
   ''writer_id'' \<notin> set (keys_of (to_json scenario_compiled)) \<and>
   ''order_id'' \<notin> set (keys_of (to_json scenario_compiled)) \<and>
   map_of (properties (to_json scenario_compiled)) ''writer'' = Some (JStr ''Guru Nanak Dev Ji'')"
proof -
  let ?s = "scenario_shabad 1 [scenario_line 11 1 [scenario_translation 11 1 ''Dr. Sant Singh Khalsa'' ''{}'']]"
  have 1: "compile_shabad parse_scenario snake_case ?s = Inr scenario_compiled"
    by code_simp
  have 2: "shabad_subsection ?s = None"
    by (simp add: scenario_shabad_def)
  have 3: "distinct (map fst (shabad_columns ?s))"
    by (simp add: scenario_shabad_def)
  have 4: "map snake_case head_keys = [''writer_id'', ''source_id'', ''section_id'', ''order_id'',
                              ''subsection_id'', ''writer'', ''section'', ''subsection'']"
    by code_simp
  have 5: "\<forall>key \<in> fst ` set (shabad_columns ?s).
           snake_case key \<in> snake_case ` set head_keys \<longrightarrow> key \<in> set head_keys"
    by code_simp
  have v: "to_json scenario_compiled =
     JObj [(''id'', JNum 1), (''writer'', JStr ''Guru Nanak Dev Ji''), (''section'', JStr ''Jap''),
           (''subsection'', JNull),
           (''lines'',
            JArr [JObj [(''id'', JNum 11), (''source_page'', JNum 1), (''type'', JNull),
                        (''gurmukhi'', JObj [(''SGPC'', JStr ''siq nwmu'')]),
                        (''translations'',
                         JObj [(''English'',
                                JObj [(''Dr. Sant Singh Khalsa'',
                                       JObj [(''translation'', JStr ''True is the Name''),
                                             (''additional_information'', JObj [])])])])]])]"
    by code_simp
  have w: "shabad_writer ?s = ''Guru Nanak Dev Ji''"
    by (simp add: scenario_shabad_def)
  from shabad_without_subsection [OF 1 2 3 4 5] have
    "map_of (properties (to_json scenario_compiled)) ''subsection'' = Some JNull \<and>
     ''writer_id'' \<notin> set (keys_of (to_json scenario_compiled)) \<and>
     ''order_id'' \<notin> set (keys_of (to_json scenario_compiled)) \<and>
     map_of (properties (to_json scenario_compiled)) ''writer'' = Some (JStr ''Guru Nanak Dev Ji'')"
    unfolding w by blast
  with 1 v show ?thesis by blast
qed

section \<open>Properties of the pagination\<close>

lemma digit_value_digit_char: "d < 10 \<Longrightarrow> digit_value (digit_char d) = Some d"
proof -
  assume "d < 10"
  then have "d = 0 \<or> d = 1 \<or> d = 2 \<or> d = 3 \<or> d = 4 \<or> d = 5 \<or> d = 6 \<or> d = 7 \<or> d = 8 \<or> d = 9"
    by arith
  then show ?thesis
    by (elim disjE) (simp_all add: digit_value_def digit_char_def upt_rec)
qed

lemma number_of_digits_snoc:
  "number_of_digits acc (xs @ [c]) =
     (case number_of_digits acc xs of
        None \<Rightarrow> None
      | Some a \<Rightarrow> (case digit_value c of None \<Rightarrow> None | Some d \<Rightarrow> Some (10 * a + d)))"
  by (induction xs arbitrary: acc) (auto split: option.splits)

lemma number_of_digits_string_of_nat: "number_of_digits 0 (string_of_nat n) = Some n"
proof (induction n rule: string_of_nat.induct)
  case (1 n)
  show ?case
  proof (cases "n < 10")
    case True
    then show ?thesis
      by (subst string_of_nat.simps) (simp add: digit_value_digit_char)
  next
    case False
    with 1 have "number_of_digits 0 (string_of_nat (n div 10)) = Some (n div 10)" by simp
    with False show ?thesis
      by (subst string_of_nat.simps) (simp add: number_of_digits_snoc digit_value_digit_char)
  qed
qed

lemma string_of_nat_ne: "string_of_nat n \<noteq> []"
  by (subst string_of_nat.simps) simp

lemma number_of_string_of_nat: "number_of_string (string_of_nat n) = Some n"
  by (simp add: number_of_string_def string_of_nat_ne number_of_digits_string_of_nat)

lemma array_index_string_of_nat:
  "n < 4294967295 \<Longrightarrow> array_index (string_of_nat n) = Some n"
  by (simp add: array_index_def number_of_string_of_nat)

lemma string_of_nat_inj: "string_of_nat m = string_of_nat n \<Longrightarrow> m = n"
  by (metis number_of_string_of_nat option.inject)

lemma string_of_nat_length_mono: "m \<le> n \<Longrightarrow> length (string_of_nat m) \<le> length (string_of_nat n)"
proof (induction n arbitrary: m rule: string_of_nat.induct)
  case (1 n)
  show ?case
  proof (cases "n < 10")
    case True
    with 1(2) have "m < 10" by simp
    with True show ?thesis
      by (subst string_of_nat.simps, subst (2) string_of_nat.simps) simp
  next
    case False
    show ?thesis
    proof (cases "m < 10")
      case True
      with False show ?thesis
        by (subst string_of_nat.simps, subst (2) string_of_nat.simps) simp
    next
      case m: False
      from 1(2) have "m div 10 \<le> n div 10" by (rule div_le_mono)
      from 1(1) [OF False this] False m show ?thesis
        by (subst string_of_nat.simps, subst (2) string_of_nat.simps) simp
    qed
  qed
qed

lemma insert_index_keys:
  assumes "map fst pages = map string_of_nat ps" "\<forall>q \<in> set ps. q < 4294967295"
  shows "map fst (insert_index p (string_of_nat p) x pages) = map string_of_nat (insort p ps)"
  using assms
proof (induction pages arbitrary: ps)
  case Nil
  then show ?case by simp
next
  case (Cons e pages)
  obtain k y where e: "e = (k, y)" by (cases e)
  from Cons.prems(1) obtain q qs where ps: "ps = q # qs" "k = string_of_nat q"
    "map fst pages = map string_of_nat qs"
    by (cases ps) (auto simp: e)
  with Cons.prems(2) have q: "array_index (string_of_nat q) = Some q"
    and qs: "\<forall>q \<in> set qs. q < 4294967295"
    by (simp_all add: array_index_string_of_nat)
  show ?case
    using Cons.IH [OF ps(3) qs] by (auto simp: e ps q)
qed

lemma insert_index_set: "set (insert_index n k x pages) = insert (k, x) (set pages)"
  by (induction pages) (auto split: option.splits if_splits)

lemma insert_index_members:
  "mset (concat (map snd (insert_index n k x pages))) = mset x + mset (concat (map snd pages))"
  by (induction pages) (auto split: option.splits)

lemma update_members:
  "map_of pages k = Some g \<Longrightarrow>
   mset (concat (map snd (AList.update k (g @ [v]) pages))) = mset (concat (map snd pages)) + {#v#}"
  by (induction pages) (auto split: if_splits)

lemma update_same_keys: "k \<in> fst ` set pages \<Longrightarrow> map fst (AList.update k x pages) = map fst pages"
  by (induction pages) auto

lemma has_page_key:
  assumes "has_page v"
  shows "first_page v = Inr (JNum (int (page_number v)))"
    and "js_String (JNum (int (page_number v))) = string_of_nat (page_number v)"
    and "page_number v < 4294967295"
  using assms
  by (auto simp: has_page_def page_number_def string_of_int_def split: sum.splits json.splits)

lemma groupBy_step:
  assumes inv: "grouped_by_page pages seen" and v: "has_page v"
  shows "grouped_by_page
           (case map_of pages (string_of_nat (page_number v)) of
              Some page \<Rightarrow> AList.update (string_of_nat (page_number v)) (page @ [v]) pages
            | None \<Rightarrow> set_property (string_of_nat (page_number v)) [v] pages)
           (seen @ [v])"
proof -
  let ?p = "page_number v" and ?k = "string_of_nat (page_number v)"
  from inv obtain ps where ps: "map fst pages = map string_of_nat ps" "sorted ps" "distinct ps"
    "set ps = page_number ` set seen" "\<forall>p \<in> set ps. p < 4294967295"
    and members: "mset (concat (map snd pages)) = mset seen"
    and keyed: "\<forall>(key, members) \<in> set pages. \<forall>s \<in> set members. key = string_of_nat (page_number s)"
    unfolding grouped_by_page_def by blast
  have keys: "fst ` set pages = string_of_nat ` set ps"
    using ps(1) by (metis image_set)
  show ?thesis
  proof (cases "map_of pages ?k")
    case (Some g)
    let ?pages = "AList.update ?k (g @ [v]) pages"
    from Some have in_pages: "(?k, g) \<in> set pages" by (rule map_of_SomeD)
    then have "?k \<in> fst ` set pages" by force
    with keys have p_in: "?p \<in> set ps" by (auto dest: string_of_nat_inj)
    have k1: "map fst ?pages = map string_of_nat ps"
      using \<open>?k \<in> fst ` set pages\<close> ps(1) by (simp add: update_same_keys)
    have k2: "set ps = page_number ` set (seen @ [v])"
      using p_in ps(4) by auto
    have m: "mset (concat (map snd ?pages)) = mset (seen @ [v])"
      using update_members [OF Some] members by simp
    have "key = string_of_nat (page_number s)"
      if "(key, ms) \<in> set ?pages" "s \<in> set ms" for key ms s
    proof -
      from that(1) consider "key = ?k" "ms = g @ [v]" | "(key, ms) \<in> set pages"
        by (auto dest: in_update_cases)
      then show ?thesis
      proof cases
        case 1
        with that(2) keyed in_pages show ?thesis by auto
      next
        case 2
        with that(2) keyed show ?thesis by auto
      qed
    qed
    then have "\<forall>(key, members) \<in> set ?pages. \<forall>s \<in> set members. key = string_of_nat (page_number s)"
      by auto
    with k1 k2 m ps(2,3,5) have "grouped_by_page ?pages (seen @ [v])"
      unfolding grouped_by_page_def by blast
    with Some show ?thesis by simp
  next
    case None
    then have notin: "?k \<notin> fst ` set pages" by (simp add: map_of_eq_None_iff)
    with keys have p_notin: "?p \<notin> set ps" by auto
    have idx: "array_index ?k = Some ?p"
      using has_page_key(3) [OF v] by (rule array_index_string_of_nat)
    let ?pages = "insert_index ?p ?k [v] pages"
    have sp: "set_property ?k [v] pages = ?pages"
      using notin idx by (simp add: set_property_def)
    have k1: "map fst ?pages = map string_of_nat (insort ?p ps)"
      using ps(1,5) by (rule insert_index_keys)
    have k2: "sorted (insort ?p ps)" "distinct (insort ?p ps)"
      using ps(2,3) p_notin by (simp_all add: sorted_insort distinct_insort)
    have k3: "set (insort ?p ps) = page_number ` set (seen @ [v])"
      using ps(4) by (auto simp: set_insort_key)
    have k4: "\<forall>p \<in> set (insort ?p ps). p < 4294967295"
      using ps(5) has_page_key(3) [OF v] by (auto simp: set_insort_key)
    have m: "mset (concat (map snd ?pages)) = mset (seen @ [v])"
      using members by (simp add: insert_index_members)
    have "\<forall>(key, members) \<in> set ?pages. \<forall>s \<in> set members. key = string_of_nat (page_number s)"
      using keyed by (auto simp: insert_index_set)
    with k1 k2 k3 k4 m have "grouped_by_page ?pages (seen @ [v])"
      unfolding grouped_by_page_def by blast
    with None sp show ?thesis by simp
  qed
qed

lemma string_of_int_nat: "string_of_int (int n) = string_of_nat n"
  by (simp add: string_of_int_def)

lemma groupBy_grouped:
  assumes "list_all has_page vs" and "grouped_by_page pages seen"
  shows "\<exists>result. groupBy first_page pages vs = Inr result \<and> grouped_by_page result (seen @ vs)"
  using assms
proof (induction vs arbitrary: pages seen)
  case Nil
  then show ?case by simp
next
  case (Cons v vs)
  from Cons.prems(1) have v: "has_page v" and vs: "list_all has_page vs" by simp_all
  note step = groupBy_step [OF Cons.prems(2) v]
  from Cons.IH [OF vs step] show ?case
    by (simp add: has_page_key(1) [OF v] string_of_int_nat Let_def)
qed

lemma grouped_by_page_empty: "grouped_by_page [] []"
  by (simp add: grouped_by_page_def)

lemma padStart_length: "length s \<le> n \<Longrightarrow> length (padStart n c s) = n"
  by (simp add: padStart_def)

lemma sorted_le_last: "sorted xs \<Longrightarrow> x \<in> set xs \<Longrightarrow> x \<le> last (xs::nat list)"
  by (induction xs) auto

lemma page_label_width:
  assumes "grouped_by_page pages compiled" and "key \<in> fst ` set pages"
  shows "length (page_label pages key) = length (string_of_nat (max_page compiled))"
proof -
  from assms(1) obtain ps where ps: "map fst pages = map string_of_nat ps" "sorted ps"
    "set ps = page_number ` set compiled"
    unfolding grouped_by_page_def by blast
  from assms(2) have ne: "pages \<noteq> []" by auto
  with ps(1) have psne: "ps \<noteq> []" by auto
  have "fst (last pages) = last (map fst pages)"
    using ne by (simp add: last_map)
  also have "\<dots> = string_of_nat (last ps)"
    using psne by (simp add: ps(1) last_map)
  finally have l: "fst (last pages) = string_of_nat (last ps)" .
  have le: "p \<le> last ps" if "p \<in> set ps" for p
    using ps(2) that by (rule sorted_le_last)
  have "Max (set ps) = last ps"
    using psne le by (intro Max_eqI) auto
  then have m: "max_page compiled = last ps"
    by (simp add: max_page_def ps(3))
  from assms(2) have "key \<in> set (map fst pages)" by simp
  then obtain p where p: "p \<in> set ps" "key = string_of_nat p"
    unfolding ps(1) by auto
  from le [OF p(1)] have "length key \<le> length (string_of_nat (last ps))"
    unfolding p(2) by (rule string_of_nat_length_mono)
  then show ?thesis
    by (simp add: page_label_def l m padStart_length)
qed

lemma saved_pages:
  "map fst (saved (foldl (\<lambda>fx (page, compiled). saveData (name page) (JArr compiled) False fx) fx pages)) =
   map fst (saved fx) @ map (\<lambda>key. TMP_DIR @ ''/'' @ name key @ ''.json'') (map fst pages)"
  by (induction pages arbitrary: fx) (auto simp: saveData_def Let_def)

lemma save_source_files:
  "map fst (saved (save_source (source, pages) fx)) =
   map fst (saved fx) @
   map (\<lambda>key. TMP_DIR @ ''/'' @ source @ ''/'' @ page_label pages key @ ''.json'') (map fst pages)"
  using saved_pages [of "\<lambda>page. source @ ''/'' @ page_label pages page" "console_log (''Compiling shabads for '' @ source) fx" pages]
  by (simp add: save_source_def console_log_def)

lemma scenario_has_page: "list_all has_page [paged_shabad 1 42, paged_shabad 2 3, paged_shabad 3 42]"
  by (simp add: has_page_def first_page_def paged_shabad_def get_def properties_def)

lemma paged_shabad_page: "page_number (paged_shabad i page) = nat page" "first_page (paged_shabad i page) = Inr (JNum page)"
  by (simp_all add: page_number_def first_page_def paged_shabad_def get_def properties_def)

lemma scenario_numbers: "string_of_nat 42 = ''42''" "string_of_nat 3 = ''3''" "string_of_nat 1 = ''1''" "string_of_nat 120 = ''120''"
  by (simp_all add: string_of_nat.simps digit_char_def)

lemma scenario_groupBy: "groupBy first_page [] [paged_shabad 1 42, paged_shabad 2 3, paged_shabad 3 42] =
    Inr [(''3'', [paged_shabad 2 3]), (''42'', [paged_shabad 1 42, paged_shabad 3 42])]"
proof -
  have i: "array_index ''42'' = Some 42" "array_index ''3'' = Some 3"
    using array_index_string_of_nat [of 42] array_index_string_of_nat [of 3] by (simp_all add: scenario_numbers)
  have n: "string_of_int 42 = ''42''" "string_of_int 3 = ''3''"
    using string_of_int_nat [of 42] string_of_int_nat [of 3] by (simp_all add: scenario_numbers)
  show ?thesis
    by (simp add: paged_shabad_page n i set_property_def Let_def)
qed

lemma scenario_labels: "map (page_label [(''3'', [paged_shabad 2 3]), (''42'', [paged_shabad 1 42, paged_shabad 3 42])]) [''3'', ''42''] = [''03'', ''42'']"
  by (simp add: page_label_def padStart_def)

lemma scenario_max_page: "max_page [paged_shabad 1 42, paged_shabad 2 3, paged_shabad 3 42] = 42"
  using paged_shabad_page(1) [of 1 42] paged_shabad_page(1) [of 2 3] paged_shabad_page(1) [of 3 42] by (simp add: max_page_def)

text \<open>
  Claim C4. For every source whose compiled shabads each have a first line with a page
  number: the grouping succeeds, no page key occurs twice and the groups together hold
  every shabad once, so every shabad is in exactly one group; the key of a group is the
  page number of the first line of each of its shabads; and every page label, the key
  padded with zeros, is as long as the decimal text of the greatest page number of the
  source. The files of the source are saved under these labels.
\<close>

theorem pagination_grouper:
  assumes "list_all has_page compiled"
  shows "\<exists>pages.
           groupBy first_page [] compiled = Inr pages \<and>
           distinct (map fst pages) \<and>
           mset (concat (map snd pages)) = mset compiled \<and>
           (\<forall>(key, members) \<in> set pages.
              \<forall>shabad \<in> set members. key = string_of_nat (page_number shabad)) \<and>
           (\<forall>key \<in> fst ` set pages.
              length (page_label pages key) = length (string_of_nat (max_page compiled))) \<and>
           map fst (saved (save_source (source, pages) fx)) =
             map fst (saved fx) @
             map (\<lambda>key. TMP_DIR @ ''/'' @ source @ ''/'' @ page_label pages key @ ''.json'')
               (map fst pages)"
proof -
  from groupBy_grouped [OF assms grouped_by_page_empty]
  obtain pages where pages: "groupBy first_page [] compiled = Inr pages"
    and g: "grouped_by_page pages compiled"
    by auto
  from g obtain ps where ps: "map fst pages = map string_of_nat ps" "distinct ps"
    unfolding grouped_by_page_def by blast
  have d: "distinct (map fst pages)"
    unfolding ps(1) using ps(2) by (simp add: distinct_map inj_on_def string_of_nat_inj)
  from g have m: "mset (concat (map snd pages)) = mset compiled"
    and k: "\<forall>(key, members) \<in> set pages.
              \<forall>shabad \<in> set members. key = string_of_nat (page_number shabad)"
    unfolding grouped_by_page_def by blast+
  from page_label_width [OF g]
  have w: "\<forall>key \<in> fst ` set pages.
              length (page_label pages key) = length (string_of_nat (max_page compiled))"
    by blast
  from pages d m k w save_source_files [of source pages fx] show ?thesis
    by blast
qed

text \<open>Claim C4 at three shabads on the pages 42, 3 and 42: two groups, the labels \<open>03\<close> and
  \<open>42\<close>; and the labels of the pages 1 and 120 are \<open>001\<close> and \<open>120\<close>.\<close>

theorem pagination_grouper_witness:
  "groupBy first_page [] [paged_shabad 1 42, paged_shabad 2 3, paged_shabad 3 42] =
     Inr [(''3'', [paged_shabad 2 3]), (''42'', [paged_shabad 1 42, paged_shabad 3 42])] \<and>
   map fst (saved (save_source
       (''Sri Guru Granth Sahib'',
        [(''3'', [paged_shabad 2 3]), (''42'', [paged_shabad 1 42, paged_shabad 3 42])])
       \<lparr>console = [], saved = []\<rparr>)) =
     [''./data.tmp/Sri Guru Granth Sahib/03.json'', ''./data.tmp/Sri Guru Granth Sahib/42.json''] \<and>
   length (page_label [(''3'', [paged_shabad 2 3]), (''42'', [paged_shabad 1 42, paged_shabad 3 42])] ''3'') =
     length (string_of_nat (max_page [paged_shabad 1 42, paged_shabad 2 3, paged_shabad 3 42])) \<and>
   map (page_label [(''1'', [paged_shabad 1 1]), (''120'', [paged_shabad 2 120])]) [''1'', ''120''] =
     [''001'', ''120'']"
proof -
  let ?pages = "[(''3'', [paged_shabad 2 3]), (''42'', [paged_shabad 1 42, paged_shabad 3 42])]"
  from pagination_grouper [OF scenario_has_page, of "''Sri Guru Granth Sahib''" "\<lparr>console = [], saved = []\<rparr>"]
  obtain pages where pages:
    "groupBy first_page [] [paged_shabad 1 42, paged_shabad 2 3, paged_shabad 3 42] = Inr pages"
    "\<forall>key \<in> fst ` set pages.
       length (page_label pages key) =
       length (string_of_nat (max_page [paged_shabad 1 42, paged_shabad 2 3, paged_shabad 3 42]))"
    "map fst (saved (save_source (''Sri Guru Granth Sahib'', pages) \<lparr>console = [], saved = []\<rparr>)) =
       map fst (saved \<lparr>console = [], saved = []\<rparr>) @
       map (\<lambda>key. TMP_DIR @ ''/'' @ ''Sri Guru Granth Sahib'' @ ''/'' @ page_label pages key @ ''.json'')
         (map fst pages)"
    by blast
  have p: "pages = ?pages"
    using pages(1) unfolding scenario_groupBy by simp
  have "length (page_label ?pages ''3'') =
     length (string_of_nat (max_page [paged_shabad 1 42, paged_shabad 2 3, paged_shabad 3 42]))"
    using pages(2) unfolding p by simp
  moreover have "map fst (saved (save_source (''Sri Guru Granth Sahib'', ?pages) \<lparr>console = [], saved = []\<rparr>)) =
     [''./data.tmp/Sri Guru Granth Sahib/03.json'', ''./data.tmp/Sri Guru Granth Sahib/42.json'']"
    using pages(3) unfolding p by (simp add: TMP_DIR_def page_label_def padStart_def)
  moreover have "map (page_label [(''1'', [paged_shabad 1 1]), (''120'', [paged_shabad 2 120])]) [''1'', ''120''] =
     [''001'', ''120'']"
    by (simp add: page_label_def padStart_def)
  ultimately show ?thesis
    using scenario_groupBy by simp
qed

end
